theory Spec2Isabelle
  imports Complex_Main "HOL-Library.Word"
begin

section \<open>Video to ASCII animation encoder (scripts/convert-video-to-ascii.py)\<close>

text \<open>
  A shallow embedding of the encoder core: the glyph template bank, the per-cell
  structural matcher, the palette builder and the binary serializer.

  Conventions of the embedding.
  \<^item> A numpy \<open>uint8\<close> is an \<open>8 word\<close>; storing a wider integer into a \<open>uint8\<close> array
    wraps, which is \<open>of_nat\<close> on words.
  \<^item> A two-dimensional array is a list of rows. A grayscale frame is a list of rows of
    bytes, an RGB frame a list of rows of byte triples.
  \<^item> \<open>float32\<close>/\<open>float64\<close> arithmetic is idealised as arithmetic on \<open>real\<close>: a
    score, a norm or a mean below is the exact number, not its rounded value.
  \<^item> Every exception of the source is a value \<open>Inl e\<close> of the result type.
  \<^item> The collaborators that are not part of the repository (the font rasterizer of PIL,
    the clustering of scikit-learn, the decoded frames) are parameters.
\<close>

subsection \<open>Data\<close>

type_synonym byte = "8 word"
type_synonym gray_frame = "byte list list"
type_synonym rgb = "byte \<times> byte \<times> byte"
type_synonym rgb_frame = "rgb list list"
type_synonym color = "real \<times> real \<times> real"

datatype error =
    ValueError string
  | StructError string
  | UnicodeEncodeError
  | OSError string
  | CalledProcessError

text \<open>
  The fitted \<open>MiniBatchKMeans\<close> object, as far as the program uses it: the centroids
  \<open>cluster_centers_\<close> and the classifier \<open>predict\<close> (applied to one sample).
\<close>

record kmeans =
  cluster_centers :: "color list"
  predict :: "color \<Rightarrow> nat"

subsection \<open>Array helpers (numpy)\<close>

text \<open>\<open>a[y0 : y0 + h, x0 : x0 + w]\<close>: slices are clipped to the array, never raise.\<close>

definition slice2d :: "'a list list \<Rightarrow> nat \<Rightarrow> nat \<Rightarrow> nat \<Rightarrow> nat \<Rightarrow> 'a list list" where
  "slice2d a y0 x0 h w = map (\<lambda>r. take w (drop x0 r)) (take h (drop y0 a))"

text \<open>\<open>region.flatten().astype(np.float32) / 255.0\<close>\<close>

definition flatten_normalize :: "byte list list \<Rightarrow> real list" where
  "flatten_normalize region = map (\<lambda>p. real (unat p) / 255) (concat region)"

text \<open>\<open>np.linalg.norm\<close> of a vector: the L2 norm.\<close>

definition linalg_norm :: "real list \<Rightarrow> real" where
  "linalg_norm v = sqrt (sum_list (map (\<lambda>x. x * x) v))"

definition dot :: "real list \<Rightarrow> real list \<Rightarrow> real" where
  "dot u v = sum_list (map2 (*) u v)"

text \<open>\<open>M @ v\<close> for a matrix and a vector: the inner dimensions must agree.\<close>

definition matvec :: "real list list \<Rightarrow> real list \<Rightarrow> error + real list" where
  "matvec m v =
     (if list_all (\<lambda>r. length r = length v) m then Inr (map (\<lambda>r. dot r v) m)
      else Inl (ValueError ''matmul: dimension mismatch''))"

text \<open>
  An elementwise binary operation on two one-dimensional arrays, with numpy's
  broadcasting: equal lengths, or one of them of length one.
\<close>

definition broadcast2 :: "('a \<Rightarrow> 'b \<Rightarrow> 'c) \<Rightarrow> 'a list \<Rightarrow> 'b list \<Rightarrow> error + 'c list" where
  "broadcast2 f xs ys =
     (if length xs = length ys then Inr (map2 f xs ys)
      else if length xs = 1 then Inr (map (f (hd xs)) ys)
      else if length ys = 1 then Inr (map (\<lambda>x. f x (hd ys)) xs)
      else Inl (ValueError ''operands could not be broadcast together''))"

text \<open>
  \<open>np.argmax\<close>: the index of the first occurrence of the maximum; an empty array raises.
  The loop keeps the best index so far and replaces it only by a strictly larger value.
\<close>

fun argmax_loop :: "real list \<Rightarrow> nat \<Rightarrow> nat \<Rightarrow> real \<Rightarrow> nat" where
  "argmax_loop [] i best_i best = best_i"
| "argmax_loop (y # ys) i best_i best =
     (if best < y then argmax_loop ys (Suc i) i y else argmax_loop ys (Suc i) best_i best)"

definition argmax :: "real list \<Rightarrow> error + nat" where
  "argmax xs =
     (case xs of
        [] \<Rightarrow> Inl (ValueError ''attempt to get argmax of an empty sequence'')
      | x # rest \<Rightarrow> Inr (argmax_loop rest 1 0 x))"

text \<open>\<open>rgb_region.reshape(-1, 3).mean(axis=0)\<close> on a non-empty region.\<close>

definition mean_rgb :: "rgb list \<Rightarrow> color" where
  "mean_rgb px =
     (let n = real (length px) in
      (sum_list (map (\<lambda>(r, g, b). real (unat r)) px) / n,
       sum_list (map (\<lambda>(r, g, b). real (unat g)) px) / n,
       sum_list (map (\<lambda>(r, g, b). real (unat b)) px) / n))"

text \<open>Running a list of fallible steps in order; the first exception ends the run.\<close>

fun collect :: "(error + 'a) list \<Rightarrow> error + 'a list" where
  "collect [] = Inr []"
| "collect (x # xs) =
     (case x of
        Inl e \<Rightarrow> Inl e
      | Inr v \<Rightarrow> (case collect xs of Inl e \<Rightarrow> Inl e | Inr vs \<Rightarrow> Inr (v # vs)))"

subsection \<open>The structural matcher\<close>

text \<open>The near-zero threshold \<open>1e-6\<close> and the stabilizing constant \<open>1e-8\<close>.\<close>

definition near_zero :: real where
  "near_zero = 1 / 1000000"

definition eps :: real where
  "eps = 1 / 100000000"

text \<open>The grayscale region of the cell at \<open>(row, col)\<close>, flattened and normalized.\<close>

definition region_flat :: "gray_frame \<Rightarrow> nat \<Rightarrow> nat \<Rightarrow> nat \<Rightarrow> nat \<Rightarrow> real list" where
  "region_flat frame_gray row col cell_w cell_h =
     flatten_normalize (slice2d frame_gray (row * cell_h) (col * cell_w) cell_h cell_w)"

text \<open>The color region of the cell at \<open>(row, col)\<close>, as \<open>reshape(-1, 3)\<close> lists it.\<close>

definition rgb_region :: "rgb_frame \<Rightarrow> nat \<Rightarrow> nat \<Rightarrow> nat \<Rightarrow> nat \<Rightarrow> rgb list" where
  "rgb_region frame_rgb row col cell_w cell_h =
     concat (slice2d frame_rgb (row * cell_h) (col * cell_w) cell_h cell_w)"

text \<open>\<open>scores = dots / (template_norms * region_norm + 1e-8)\<close>\<close>

definition scores_of :: "real list list \<Rightarrow> real list \<Rightarrow> real list \<Rightarrow> error + real list" where
  "scores_of flat_templates template_norms rf =
     (case matvec flat_templates rf of
        Inl e \<Rightarrow> Inl e
      | Inr dots \<Rightarrow>
          broadcast2 (/) dots (map (\<lambda>tn. tn * linalg_norm rf + eps) template_norms))"

text \<open>The glyph byte of one cell (lines 100 to 111).\<close>

definition glyph_of_cell :: "real list list \<Rightarrow> real list \<Rightarrow> real list \<Rightarrow> error + byte" where
  "glyph_of_cell flat_templates template_norms rf =
     (if linalg_norm rf < near_zero then Inr 0
      else (case scores_of flat_templates template_norms rf of
              Inl e \<Rightarrow> Inl e
            | Inr scores \<Rightarrow>
                (case argmax scores of Inl e \<Rightarrow> Inl e | Inr i \<Rightarrow> Inr (of_nat i))))"

text \<open>
  The color byte of one cell (lines 113 to 116). The mean of an empty region is NaN, which
  \<open>predict\<close> rejects.
\<close>

definition color_of_cell :: "kmeans \<Rightarrow> rgb list \<Rightarrow> error + byte" where
  "color_of_cell km px =
     (if px = [] then Inl (ValueError ''Input contains NaN'')
      else Inr (of_nat (predict km (mean_rgb px))))"

definition match_cell ::
  "gray_frame \<Rightarrow> rgb_frame \<Rightarrow> real list list \<Rightarrow> real list \<Rightarrow> kmeans \<Rightarrow> nat \<Rightarrow> nat
     \<Rightarrow> nat \<times> nat \<Rightarrow> error + byte list" where
  "match_cell frame_gray frame_rgb flat_templates template_norms km cell_w cell_h rc =
     (case glyph_of_cell flat_templates template_norms
             (region_flat frame_gray (fst rc) (snd rc) cell_w cell_h) of
        Inl e \<Rightarrow> Inl e
      | Inr g \<Rightarrow>
          (case color_of_cell km (rgb_region frame_rgb (fst rc) (snd rc) cell_w cell_h) of
             Inl e \<Rightarrow> Inl e
           | Inr c \<Rightarrow> Inr [g, c]))"

text \<open>
  \<open>structural_match_frame\<close>. \<open>templates.reshape(n, -1)\<close> raises for an empty bank and
  \<open>np.empty\<close> for a negative dimension; the cells are visited in row-major order and the
  result is the flattened \<open>(rows, cols, 2)\<close> array of bytes.
\<close>

definition structural_match_frame ::
  "gray_frame \<Rightarrow> rgb_frame \<Rightarrow> real list list list \<Rightarrow> real list \<Rightarrow> kmeans
     \<Rightarrow> int \<Rightarrow> int \<Rightarrow> nat \<Rightarrow> nat \<Rightarrow> error + byte list" where
  "structural_match_frame frame_gray frame_rgb templates template_norms km cols rows cell_w cell_h =
     (if templates = [] then Inl (ValueError ''cannot reshape array of size 0'')
      else if rows < 0 \<or> cols < 0 then Inl (ValueError ''negative dimensions are not allowed'')
      else
        (case collect
                (map (match_cell frame_gray frame_rgb (map concat templates) template_norms
                        km cell_w cell_h)
                   (List.product [0..<nat rows] [0..<nat cols])) of
           Inl e \<Rightarrow> Inl e
         | Inr cells \<Rightarrow> Inr (concat cells)))"

subsection \<open>The glyph template bank\<close>

text \<open>
  The font rasterizer of PIL is a parameter. \<open>font ch w h x y\<close> is the pixel in column
  \<open>x\<close> and row \<open>y\<close> of the 8-bit (mode L) image of width \<open>w\<close> and height \<open>h\<close> that
  \<open>Image.new("L", (w, h), 0)\<close> followed by \<open>draw.text((0, 0), ch, fill=255, font=font)\<close>
  leaves. Drawing changes pixel values, never the size of the image.
\<close>

type_synonym font = "char \<Rightarrow> nat \<Rightarrow> nat \<Rightarrow> nat \<Rightarrow> nat \<Rightarrow> byte"

text \<open>\<open>np.array(img, dtype=np.float32) / 255.0\<close>: \<open>h\<close> rows of \<open>w\<close> values.\<close>

definition image_array :: "(nat \<Rightarrow> nat \<Rightarrow> byte) \<Rightarrow> nat \<Rightarrow> nat \<Rightarrow> real list list" where
  "image_array px w h = map (\<lambda>y. map (\<lambda>x. real (unat (px x y)) / 255) [0..<w]) [0..<h]"

text \<open>One turn of the loop over \<open>range(32, 127)\<close>: the character and its template.\<close>

definition render_glyph :: "font \<Rightarrow> nat \<Rightarrow> nat \<Rightarrow> nat \<Rightarrow> char \<times> real list list" where
  "render_glyph font cell_w cell_h code =
     (let ch = char_of code in (ch, image_array (font ch cell_w cell_h) cell_w cell_h))"

definition build_glyph_templates :: "font \<Rightarrow> nat \<Rightarrow> nat \<Rightarrow> string \<times> real list list list" where
  "build_glyph_templates font cell_w cell_h =
     (let glyphs = map (render_glyph font cell_w cell_h) [32..<127]
      in (map fst glyphs, map snd glyphs))"

subsection \<open>The palette builder\<close>

text \<open>
  The clustering of scikit-learn is a parameter:
  \<open>fit n_clusters random_state batch_size n_init sample\<close> stands for
  \<open>MiniBatchKMeans(n_clusters, random_state, batch_size, n_init).fit(sample)\<close>; it returns
  the fitted object or raises.
\<close>

type_synonym kmeans_fit = "nat \<Rightarrow> nat \<Rightarrow> nat \<Rightarrow> nat \<Rightarrow> color list \<Rightarrow> error + kmeans"

text \<open>\<open>a[::8]\<close>: the elements at the indices 0, 8, 16, ...\<close>

fun stride8 :: "'a list \<Rightarrow> 'a list" where
  "stride8 [] = []"
| "stride8 (x # xs) = x # stride8 (drop 7 xs)"

text \<open>\<open>astype(np.float64)\<close> of a pixel and \<open>astype(np.uint8)\<close> of a centroid (truncation).\<close>

definition pixel_float :: "rgb \<Rightarrow> color" where
  "pixel_float p = (case p of (r, g, b) \<Rightarrow> (real (unat r), real (unat g), real (unat b)))"

definition astype_uint8 :: "real \<Rightarrow> byte" where
  "astype_uint8 x = of_int (if 0 \<le> x then \<lfloor>x\<rfloor> else \<lceil>x\<rceil>)"

definition color_uint8 :: "color \<Rightarrow> rgb" where
  "color_uint8 c = (case c of (r, g, b) \<Rightarrow> (astype_uint8 r, astype_uint8 g, astype_uint8 b))"

text \<open>
  \<open>MiniBatchKMeans(...).fit(sample)\<close>. scikit-learn validates the sample before it
  clusters: fewer samples than clusters raise a \<open>ValueError\<close>. The clustering itself is the
  parameter \<open>fit\<close>.
\<close>

definition minibatch_kmeans_fit :: "kmeans_fit \<Rightarrow> kmeans_fit" where
  "minibatch_kmeans_fit fit n_clusters random_state batch_size n_init sample =
     (if length sample < n_clusters
      then Inl (ValueError ''n_samples should be >= n_clusters'')
      else fit n_clusters random_state batch_size n_init sample)"

text \<open>
  The part of scikit-learn's contract that the layout of the output relies on:
  \<open>cluster_centers_\<close> has one row per requested cluster.
\<close>

definition centroids_as_requested :: "kmeans_fit \<Rightarrow> bool" where
  "centroids_as_requested fit \<longleftrightarrow>
     (\<forall>n_clusters random_state batch_size n_init sample km.
        fit n_clusters random_state batch_size n_init sample = Inr km
          \<longrightarrow> length (cluster_centers km) = n_clusters)"

text \<open>
  \<open>build_palette\<close>. \<open>np.concatenate\<close> of an empty list of arrays raises. The pixels of
  all frames are pooled in frame order, every 8th is kept, and the sample is clustered
  with \<open>random_state=42\<close>, \<open>batch_size=2048\<close> and \<open>n_init=3\<close>.
\<close>

definition build_palette :: "kmeans_fit \<Rightarrow> rgb_frame list \<Rightarrow> nat \<Rightarrow> error + rgb list \<times> kmeans" where
  "build_palette fit frames n_colors =
     (if frames = [] then Inl (ValueError ''need at least one array to concatenate'')
      else
        (let all_pixels = concat (map concat frames);
             sample = map pixel_float (stride8 all_pixels)
         in case minibatch_kmeans_fit fit n_colors 42 2048 3 sample of
              Inl e \<Rightarrow> Inl e
            | Inr km \<Rightarrow> Inr (map color_uint8 (cluster_centers km), km)))"

subsection \<open>The binary serializer\<close>

text \<open>\<open>struct.pack\<close> with the formats \<open><H\<close> and \<open><B\<close>: out of range raises \<open>struct.error\<close>.\<close>

definition le16 :: "int \<Rightarrow> byte list" where
  "le16 v = [of_int (v mod 256), of_int (v div 256)]"

definition pack_H :: "int \<Rightarrow> error + byte list" where
  "pack_H v =
     (if 0 \<le> v \<and> v < 65536 then Inr (le16 v)
      else Inl (StructError ''ushort format requires 0 <= number <= 65535''))"

definition pack_HHHH :: "int \<Rightarrow> int \<Rightarrow> int \<Rightarrow> int \<Rightarrow> error + byte list" where
  "pack_HHHH a b c d =
     (case collect (map pack_H [a, b, c, d]) of Inl e \<Rightarrow> Inl e | Inr bs \<Rightarrow> Inr (concat bs))"

definition pack_B :: "int \<Rightarrow> error + byte list" where
  "pack_B v =
     (if 0 \<le> v \<and> v < 256 then Inr [of_int v]
      else Inl (StructError ''ubyte format requires 0 <= number <= 255''))"

text \<open>\<open>"".join(chars).encode("ascii")\<close>\<close>

definition encode_ascii :: "string \<Rightarrow> error + byte list" where
  "encode_ascii s =
     (if list_all (\<lambda>c. (of_char c :: nat) < 128) s then Inr (map of_char s)
      else Inl UnicodeEncodeError)"

text \<open>\<open>palette.tobytes()\<close> and \<open>frame.tobytes()\<close> (a frame is already a flat byte array).\<close>

definition palette_tobytes :: "rgb list \<Rightarrow> byte list" where
  "palette_tobytes palette = concat (map (\<lambda>(r, g, b). [r, g, b]) palette)"

text \<open>
  The body of \<open>with open(args.output, "wb") as f\<close>: the chunks are computed and written one
  after the other. \<open>free\<close> is the number of bytes the destination still accepts; a chunk
  that does not fit is written as far as it fits and the write raises. A chunk whose
  computation raises (\<open>struct.pack\<close>) ends the body with the file as it is. The result is
  the exception, if any, and the content of the file when it is closed.
\<close>

fun write_chunks :: "nat \<Rightarrow> byte list \<Rightarrow> (error + byte list) list \<Rightarrow> error option \<times> byte list" where
  "write_chunks free content [] = (None, content)"
| "write_chunks free content (Inl e # rest) = (Some e, content)"
| "write_chunks free content (Inr chunk # rest) =
     (if length chunk \<le> free then write_chunks (free - length chunk) (content @ chunk) rest
      else (Some (OSError ''No space left on device''), content @ take free chunk))"

definition write_binary ::
  "nat \<Rightarrow> int \<Rightarrow> int \<Rightarrow> int \<Rightarrow> string \<Rightarrow> byte list \<Rightarrow> rgb list \<Rightarrow> byte list list
     \<Rightarrow> error option \<times> byte list" where
  "write_binary free cols rows fps chars char_bytes palette frames_data =
     write_chunks free []
       ([pack_HHHH cols rows fps (int (length frames_data)),
         pack_B (int (length chars)),
         Inr char_bytes,
         Inr (palette_tobytes palette)]
        @ map Inr frames_data)"

subsection \<open>The program\<close>

text \<open>Python's \<open>round\<close> of a float: to the nearest integer, halves to the even one.\<close>

definition py_round :: "real \<Rightarrow> int" where
  "py_round x =
     (let f = \<lfloor>x\<rfloor>; d = x - of_int f
      in if d < 1 / 2 then f else if 1 / 2 < d then f + 1 else if even f then f else f + 1)"

text \<open>The command line.\<close>

record args =
  arg_input :: string
  arg_output :: string
  arg_fps :: int
  arg_cols :: int

text \<open>
  What the run takes from outside:
  \<^item> \<open>env_font\<close>: the font \<open>get_monospace_font(16)\<close> returns, as its rasterizer;
  \<^item> \<open>env_bbox\<close>: \<open>textbbox((0, 0), "@", font)\<close>;
  \<^item> \<open>env_frames\<close>: \<open>extract_frames\<close> (ffmpeg) followed by loading every frame as RGB,
    for an input path, a frame rate and a pixel size; the frames in the order loaded;
  \<^item> \<open>env_gray\<close>: \<open>img.convert("L")\<close> on one pixel;
  \<^item> \<open>env_fit\<close>: the clustering;
  \<^item> \<open>env_can_makedirs\<close>: whether \<open>os.makedirs\<close> of the destination's directory succeeds;
  \<^item> \<open>env_can_open\<close>: whether \<open>open(args.output, "wb")\<close> succeeds;
  \<^item> \<open>env_free\<close>: the number of bytes the destination accepts.
\<close>

record env =
  env_font :: font
  env_bbox :: "int \<times> int \<times> int \<times> int"
  env_frames :: "string \<Rightarrow> int \<Rightarrow> int \<Rightarrow> int \<Rightarrow> error + rgb_frame list"
  env_gray :: "rgb \<Rightarrow> byte"
  env_fit :: kmeans_fit
  env_can_makedirs :: bool
  env_can_open :: bool
  env_free :: nat

type_synonym files = "string \<rightharpoonup> byte list"

text \<open>Lines 170 to 185: the cell size from the font, the grid from the columns.\<close>

definition cell_size :: "int \<times> int \<times> int \<times> int \<Rightarrow> nat \<times> nat" where
  "cell_size bbox =
     (case bbox of (x0, y0, x1, y1) \<Rightarrow> (nat (max (x1 - x0) 8), nat (max (y1 - y0) 14)))"

definition grid_rows :: "int \<Rightarrow> nat \<Rightarrow> nat \<Rightarrow> int" where
  "grid_rows cols cell_w cell_h = py_round (of_int cols * 9 / 16 * (real cell_w / real cell_h))"

text \<open>Step 5: every frame is matched, in the order of the frame list.\<close>

definition match_frames ::
  "gray_frame list \<Rightarrow> rgb_frame list \<Rightarrow> real list list list \<Rightarrow> real list \<Rightarrow> kmeans
     \<Rightarrow> int \<Rightarrow> int \<Rightarrow> nat \<Rightarrow> nat \<Rightarrow> error + byte list list" where
  "match_frames frames_gray frames_rgb templates template_norms km cols rows cell_w cell_h =
     collect
       (map (\<lambda>i. structural_match_frame (frames_gray ! i) (frames_rgb ! i) templates
                   template_norms km cols rows cell_w cell_h)
          [0..<length frames_rgb])"

text \<open>
  \<open>main\<close>, from the parsed arguments on. The result is the exception that ended the run,
  if any, and the files afterwards. The destination is opened with mode \<open>wb\<close>: it is
  created or truncated in place, and whatever the body wrote is there when the run ends.
\<close>

definition main :: "env \<Rightarrow> args \<Rightarrow> files \<Rightarrow> error option \<times> files" where
  "main env a fs =
     (let (cell_w, cell_h) = cell_size (env_bbox env);
          cols = arg_cols a;
          rows = grid_rows cols cell_w cell_h;
          pixel_w = cols * int cell_w;
          pixel_h = rows * int cell_h;
          (chars, templates) = build_glyph_templates (env_font env) cell_w cell_h;
          flat_templates = map concat templates;
          template_norms = map linalg_norm flat_templates
      in case env_frames env (arg_input a) (arg_fps a) pixel_w pixel_h of
           Inl e \<Rightarrow> (Some e, fs)
         | Inr frames_rgb \<Rightarrow>
             (let frames_gray = map (map (map (env_gray env))) frames_rgb
              in case build_palette (env_fit env) frames_rgb 256 of
                   Inl e \<Rightarrow> (Some e, fs)
                 | Inr (palette, km) \<Rightarrow>
                     (case match_frames frames_gray frames_rgb templates template_norms km
                             cols rows cell_w cell_h of
                        Inl e \<Rightarrow> (Some e, fs)
                      | Inr frames_data \<Rightarrow>
                          if \<not> env_can_makedirs env
                          then (Some (OSError ''cannot create the directory''), fs)
                          else
                            (case encode_ascii chars of
                               Inl e \<Rightarrow> (Some e, fs)
                             | Inr char_bytes \<Rightarrow>
                                 if \<not> env_can_open env
                                 then (Some (OSError ''cannot open the destination''), fs)
                                 else
                                   (case write_binary (env_free env) cols rows (arg_fps a)
                                           chars char_bytes palette frames_data of
                                      (err, content) \<Rightarrow>
                                        (err, fs(arg_output a \<mapsto> content)))))))"

subsection \<open>Example inputs\<close>

text \<open>A classifier with two classes in use: dark colors go to 3, bright ones to 7.\<close>

definition example_kmeans :: kmeans where
  "example_kmeans = \<lparr>cluster_centers = [], predict = (\<lambda>c. if fst c < 128 then 3 else 7)\<rparr>"

text \<open>A font that paints the whole cell for the at sign and nothing for any other glyph.\<close>

definition example_font :: font where
  "example_font ch w h x y = (if ch = CHR ''@'' then 255 else 0)"

text \<open>
  A run on a video of one black frame: a decoder that returns one black frame of the
  requested size, the luma transform of PIL, and a clustering that finds every centroid
  at the first sample and classifies every color to cluster 0.
\<close>

definition example_fit :: kmeans_fit where
  "example_fit n_clusters random_state batch_size n_init sample =
     Inr \<lparr>cluster_centers = replicate n_clusters (hd sample), predict = (\<lambda>c. 0)\<rparr>"

definition example_gray :: "rgb \<Rightarrow> byte" where
  "example_gray p =
     (case p of (r, g, b) \<Rightarrow>
        of_nat ((unat r * 19595 + unat g * 38470 + unat b * 7471 + 32768) div 65536))"

definition example_env :: env where
  "example_env =
     \<lparr>env_font = example_font,
      env_bbox = (0, 0, 8, 14),
      env_frames = (\<lambda>path fps w h. Inr [replicate (nat h) (replicate (nat w) (0, 0, 0))]),
      env_gray = example_gray,
      env_fit = example_fit,
      env_can_makedirs = True,
      env_can_open = True,
      env_free = 1000000\<rparr>"

definition example_args :: args where
  "example_args =
     \<lparr>arg_input = ''in.mp4'', arg_output = ''out.bin'', arg_fps = 12, arg_cols = 8\<rparr>"

subsection \<open>Lemmas on the helpers\<close>

lemma collect_Inr_length: "collect xs = Inr vs \<Longrightarrow> length vs = length xs"
  by (induction xs arbitrary: vs) (auto split: sum.splits)

lemma collect_Inr_nth:
  "collect xs = Inr vs \<Longrightarrow> i < length xs \<Longrightarrow> xs ! i = Inr (vs ! i)"
proof (induction xs arbitrary: vs i)
  case Nil
  then show ?case by simp
next
  case (Cons x xs)
  then show ?case by (cases i) (auto split: sum.splits)
qed

lemma collect_all_Inr:
  "(\<And>x. x \<in> set xs \<Longrightarrow> \<exists>v. x = Inr v) \<Longrightarrow> \<exists>vs. collect xs = Inr vs"
proof (induction xs)
  case Nil
  then show ?case by simp
next
  case (Cons x xs)
  then obtain v where "x = Inr v" by auto
  moreover from Cons obtain vs where "collect xs = Inr vs" by auto
  ultimately show ?case by simp
qed

lemma concat_pairs_length:
  "\<forall>c \<in> set cells. length c = 2 \<Longrightarrow> length (concat cells) = 2 * length cells"
  by (induction cells) auto

lemma concat_pairs_nth:
  "\<forall>c \<in> set cells. length c = 2 \<Longrightarrow> k < length cells \<Longrightarrow> j < 2
     \<Longrightarrow> concat cells ! (2 * k + j) = cells ! k ! j"
proof (induction cells arbitrary: k)
  case Nil
  then show ?case by simp
next
  case (Cons c cells)
  show ?case
  proof (cases k)
    case 0
    with Cons.prems show ?thesis by (simp add: nth_append)
  next
    case (Suc k')
    with Cons.prems have "concat cells ! (2 * k' + j) = cells ! k' ! j"
      by (intro Cons.IH) auto
    with Suc Cons.prems show ?thesis by (simp add: nth_append)
  qed
qed

lemma length_concat_uniform:
  "\<forall>x \<in> set xs. length x = w \<Longrightarrow> length (concat xs) = length xs * w"
  by (induction xs) auto

lemma concat_uniform_nth:
  "\<forall>x \<in> set xs. length x = m \<Longrightarrow> f < length xs \<Longrightarrow> j < m
     \<Longrightarrow> concat xs ! (f * m + j) = xs ! f ! j"
proof (induction xs arbitrary: f)
  case Nil
  then show ?case by simp
next
  case (Cons x xs)
  show ?case
  proof (cases f)
    case 0
    with Cons.prems show ?thesis by (simp add: nth_append)
  next
    case (Suc f')
    with Cons.prems have "concat xs ! (f' * m + j) = xs ! f' ! j"
      by (intro Cons.IH) auto
    with Suc Cons.prems show ?thesis by (simp add: nth_append)
  qed
qed

lemma byte_less_256: "unat (b::byte) < 256"
proof -
  have "unat b < 2 ^ LENGTH(8)" by (rule unsigned_less)
  then show ?thesis by simp
qed

lemma unit_interval_255: "0 \<le> (r::real) \<Longrightarrow> r \<le> 255 \<Longrightarrow> 0 \<le> r / 255 \<and> r / 255 \<le> 1"
  by simp

lemma byte_unit_interval: "0 \<le> real (unat (p::byte)) / 255 \<and> real (unat p) / 255 \<le> 1"
proof (rule unit_interval_255)
  show "0 \<le> real (unat p)" by (rule of_nat_0_le_iff)
  have "unat p < 2 ^ LENGTH(8)" by (rule unsigned_less)
  then have "unat p \<le> 255" by simp
  then show "real (unat p) \<le> 255" by (metis of_nat_le_iff of_nat_numeral)
qed

subsection \<open>Lemmas on argmax\<close>

lemma argmax_loop_spec:
  assumes "i = length pre" and "best_i < i" and "best = pre ! best_i"
    and "\<forall>j < i. pre ! j \<le> best" and "\<forall>j < best_i. pre ! j < best"
  shows "argmax_loop ys i best_i best < length (pre @ ys)
         \<and> (\<forall>j < length (pre @ ys). (pre @ ys) ! j \<le> (pre @ ys) ! argmax_loop ys i best_i best)
         \<and> (\<forall>j < argmax_loop ys i best_i best. (pre @ ys) ! j < (pre @ ys) ! argmax_loop ys i best_i best)"
  using assms
proof (induction ys arbitrary: pre i best_i best)
  case Nil
  then show ?case by simp
next
  case (Cons y ys)
  let ?pre = "pre @ [y]"
  show ?case
  proof (cases "best < y")
    case True
    have "argmax_loop ys (Suc i) i y < length (?pre @ ys)
         \<and> (\<forall>j < length (?pre @ ys). (?pre @ ys) ! j \<le> (?pre @ ys) ! argmax_loop ys (Suc i) i y)
         \<and> (\<forall>j < argmax_loop ys (Suc i) i y. (?pre @ ys) ! j < (?pre @ ys) ! argmax_loop ys (Suc i) i y)"
    proof (rule Cons.IH)
      show "Suc i = length ?pre" using Cons.prems by simp
      show "i < Suc i" by simp
      show "y = ?pre ! i" using Cons.prems by simp
      show "\<forall>j < Suc i. ?pre ! j \<le> y"
        using Cons.prems True by (auto simp: nth_append less_Suc_eq intro: less_imp_le order_trans)
      show "\<forall>j < i. ?pre ! j < y"
        using Cons.prems True by (auto simp: nth_append intro: le_less_trans)
    qed
    with True show ?thesis by simp
  next
    case False
    have "argmax_loop ys (Suc i) best_i best < length (?pre @ ys)
         \<and> (\<forall>j < length (?pre @ ys). (?pre @ ys) ! j \<le> (?pre @ ys) ! argmax_loop ys (Suc i) best_i best)
         \<and> (\<forall>j < argmax_loop ys (Suc i) best_i best. (?pre @ ys) ! j < (?pre @ ys) ! argmax_loop ys (Suc i) best_i best)"
    proof (rule Cons.IH)
      show "Suc i = length ?pre" using Cons.prems by simp
      show "best_i < Suc i" using Cons.prems by simp
      show "best = ?pre ! best_i" using Cons.prems by (simp add: nth_append)
      show "\<forall>j < Suc i. ?pre ! j \<le> best"
        using Cons.prems False by (auto simp: nth_append less_Suc_eq)
      show "\<forall>j < best_i. ?pre ! j < best"
        using Cons.prems by (auto simp: nth_append)
    qed
    with False show ?thesis by simp
  qed
qed

lemma argmax_spec:
  assumes "argmax xs = Inr i"
  shows "i < length xs \<and> (\<forall>j < length xs. xs ! j \<le> xs ! i) \<and> (\<forall>j < i. xs ! j < xs ! i)"
proof (cases xs)
  case Nil
  with assms show ?thesis by (simp add: argmax_def)
next
  case (Cons x rest)
  with assms have i: "i = argmax_loop rest 1 0 x" by (simp add: argmax_def)
  have "argmax_loop rest 1 0 x < length ([x] @ rest)
         \<and> (\<forall>j < length ([x] @ rest). ([x] @ rest) ! j \<le> ([x] @ rest) ! argmax_loop rest 1 0 x)
         \<and> (\<forall>j < argmax_loop rest 1 0 x. ([x] @ rest) ! j < ([x] @ rest) ! argmax_loop rest 1 0 x)"
    by (rule argmax_loop_spec) auto
  with i Cons show ?thesis by simp
qed

lemma argmax_nonempty: "xs \<noteq> [] \<Longrightarrow> \<exists>i. argmax xs = Inr i"
  by (cases xs) (auto simp: argmax_def)

subsection \<open>Lemmas on the structural matcher\<close>

lemma match_cell_length: "match_cell fg fr ft tn km cw ch rc = Inr c \<Longrightarrow> length c = 2"
  by (auto simp: match_cell_def split: sum.splits)

lemma cell_index_less: "row < rows \<Longrightarrow> col < cols \<Longrightarrow> row * cols + col < rows * (cols::nat)"
proof -
  assume row: "row < rows" and col: "col < cols"
  have "row * cols + col < row * cols + cols" using col by simp
  also have "\<dots> = Suc row * cols" by simp
  also have "\<dots> \<le> rows * cols" using row by (intro mult_le_mono1) simp
  finally show ?thesis .
qed

lemma structural_match_frame_collect:
  assumes "structural_match_frame fg fr templates tn km (int cols) (int rows) cw ch = Inr res"
  shows "\<exists>cells. collect (map (match_cell fg fr (map concat templates) tn km cw ch)
                     (List.product [0..<rows] [0..<cols])) = Inr cells
           \<and> res = concat cells \<and> length cells = rows * cols
           \<and> (\<forall>c \<in> set cells. length c = 2)"
proof -
  let ?cells = "List.product [0..<rows] [0..<cols]"
  let ?f = "match_cell fg fr (map concat templates) tn km cw ch"
  from assms obtain cells where cells: "collect (map ?f ?cells) = Inr cells"
    and res: "res = concat cells"
    by (auto simp: structural_match_frame_def split: if_splits sum.splits)
  have len: "length cells = rows * cols"
    using collect_Inr_length [OF cells] by simp
  have "\<forall>c \<in> set cells. length c = 2"
  proof
    fix c assume "c \<in> set cells"
    then obtain i where i: "i < length cells" and c: "c = cells ! i"
      by (auto simp: in_set_conv_nth)
    have "map ?f ?cells ! i = Inr (cells ! i)"
      using collect_Inr_nth [OF cells, of i] i len by simp
    then have "?f (?cells ! i) = Inr c" using i len c by simp
    then show "length c = 2" by (rule match_cell_length)
  qed
  with cells res len show ?thesis by blast
qed

lemma structural_match_frame_length:
  assumes "structural_match_frame fg fr templates tn km (int cols) (int rows) cw ch = Inr res"
  shows "length res = 2 * (rows * cols)"
  using structural_match_frame_collect [OF assms] concat_pairs_length by fastforce

lemma structural_match_frame_cells:
  assumes ok: "structural_match_frame fg fr templates tn km (int cols) (int rows) cw ch = Inr res"
    and row: "row < rows" and col: "col < cols"
  shows "\<exists>g c. glyph_of_cell (map concat templates) tn (region_flat fg row col cw ch) = Inr g
           \<and> color_of_cell km (rgb_region fr row col cw ch) = Inr c
           \<and> res ! (2 * (row * cols + col)) = g
           \<and> res ! (2 * (row * cols + col) + 1) = c"
proof -
  let ?cells = "List.product [0..<rows] [0..<cols]"
  let ?f = "match_cell fg fr (map concat templates) tn km cw ch"
  let ?k = "row * cols + col"
  from structural_match_frame_collect [OF ok] obtain cells where
    cells: "collect (map ?f ?cells) = Inr cells" and res: "res = concat cells"
    and len: "length cells = rows * cols" and all2: "\<forall>c \<in> set cells. length c = 2"
    by blast
  have k: "?k < rows * cols" using row col by (rule cell_index_less)
  have nth: "?cells ! ?k = (row, col)"
    using k col row by (simp add: product_nth)
  have "map ?f ?cells ! ?k = Inr (cells ! ?k)"
    using collect_Inr_nth [OF cells, of ?k] k by simp
  then have cell: "?f (row, col) = Inr (cells ! ?k)"
    using k nth by simp
  from cell obtain g c where
    g: "glyph_of_cell (map concat templates) tn (region_flat fg row col cw ch) = Inr g"
    and c: "color_of_cell km (rgb_region fr row col cw ch) = Inr c"
    and gc: "cells ! ?k = [g, c]"
    by (auto simp: match_cell_def split: sum.splits)
  have "res ! (2 * ?k + 0) = cells ! ?k ! 0" unfolding res
    using all2 k len by (intro concat_pairs_nth) auto
  moreover have "res ! (2 * ?k + 1) = cells ! ?k ! 1" unfolding res
    using all2 k len by (intro concat_pairs_nth) auto
  ultimately show ?thesis using g c gc by simp
qed

lemma scores_of_equal_lengths:
  assumes "scores_of ft tn rf = Inr scores" and "length tn = length ft"
  shows "length scores = length ft"
    and "\<forall>j < length ft. scores ! j = dot (ft ! j) rf / (tn ! j * linalg_norm rf + eps)"
  using assms
  by (auto simp: scores_of_def matvec_def broadcast2_def split: if_splits sum.splits)

lemma glyph_of_cell_bound:
  assumes "glyph_of_cell ft tn rf = Inr g" and "ft \<noteq> []" and "length tn = length ft"
  shows "unat g < length ft"
proof (cases "linalg_norm rf < near_zero")
  case True
  with assms show ?thesis by (simp add: glyph_of_cell_def)
next
  case False
  with assms(1) obtain scores i where
    scores: "scores_of ft tn rf = Inr scores"
    and i: "argmax scores = Inr i" and gi: "g = of_nat i"
    by (auto simp: glyph_of_cell_def split: sum.splits)
  have "i < length ft"
    using argmax_spec [OF i] scores_of_equal_lengths(1) [OF scores assms(3)] by simp
  moreover have "unat (of_nat i :: byte) \<le> i"
    by (simp add: unat_of_nat)
  ultimately show ?thesis using gi by simp
qed

lemma structural_match_frame_glyph_bound:
  assumes ok: "structural_match_frame fg fr templates tn km (int cols) (int rows) cw ch = Inr res"
    and norms: "length tn = length templates"
    and k: "k < cols * rows"
  shows "unat (res ! (2 * k)) < length templates"
proof -
  have cols: "0 < cols" using k by (cases cols) auto
  let ?row = "k div cols" and ?col = "k mod cols"
  have row: "?row < rows" using k cols by (simp add: less_mult_imp_div_less mult.commute)
  have col: "?col < cols" using cols by simp
  have idx: "?row * cols + ?col = k" by simp
  from structural_match_frame_cells [OF ok row col] obtain g where
    g: "glyph_of_cell (map concat templates) tn (region_flat fg ?row ?col cw ch) = Inr g"
    and res: "res ! (2 * k) = g"
    unfolding idx by blast
  have "templates \<noteq> []" using ok by (auto simp: structural_match_frame_def split: if_splits)
  then have "unat g < length (map concat templates)"
    using glyph_of_cell_bound [OF g] norms by simp
  then show ?thesis using res by simp
qed

lemma abs_le_linalg_norm: "x \<in> set v \<Longrightarrow> \<bar>x\<bar> \<le> linalg_norm v"
proof -
  assume x: "x \<in> set v"
  have nonneg: "0 \<le> sum_list (map (\<lambda>x. x * x) u)" for u :: "real list"
    by (induction u) auto
  have "x * x \<le> sum_list (map (\<lambda>x. x * x) v)"
    using x
  proof (induction v)
    case Nil
    then show ?case by simp
  next
    case (Cons y v)
    then show ?case using nonneg [of v] by (auto simp: add_increasing add_increasing2)
  qed
  then have "sqrt (x * x) \<le> sqrt (sum_list (map (\<lambda>x. x * x) v))"
    by (rule real_sqrt_le_mono)
  then show ?thesis by (simp add: linalg_norm_def)
qed

lemma linalg_norm_zeros: "\<forall>x \<in> set v. x = 0 \<Longrightarrow> linalg_norm v = 0"
proof -
  assume "\<forall>x \<in> set v. x = 0"
  then have "sum_list (map (\<lambda>x. x * x) v) = 0" by (induction v) auto
  then show ?thesis by (simp add: linalg_norm_def)
qed

text \<open>
  Pixels are bytes, so a region that is not black has a norm of at least 1/255: the
  near-zero branch is taken exactly for the black regions, with a wide margin on both
  sides of the threshold.
\<close>

lemma near_zero_iff_black:
  "linalg_norm (flatten_normalize region) < near_zero \<longleftrightarrow> (\<forall>p \<in> set (concat region). p = 0)"
proof
  assume small: "linalg_norm (flatten_normalize region) < near_zero"
  show "\<forall>p \<in> set (concat region). p = 0"
  proof (rule ccontr)
    assume "\<not> (\<forall>p \<in> set (concat region). p = 0)"
    then obtain p where p: "p \<in> set (concat region)" and "p \<noteq> 0" by blast
    then have "unat p \<noteq> 0" by (simp add: unat_eq_0)
    then have "1 \<le> unat p" by simp
    then have "real 1 \<le> real (unat p)" by (simp only: of_nat_le_iff)
    then have "1 / 255 \<le> real (unat p) / 255" by (intro divide_right_mono) simp_all
    moreover have "real (unat p) / 255 \<in> set (flatten_normalize region)"
      using p by (auto simp: flatten_normalize_def)
    then have "\<bar>real (unat p) / 255\<bar> \<le> linalg_norm (flatten_normalize region)"
      by (rule abs_le_linalg_norm)
    ultimately have "1 / 255 \<le> linalg_norm (flatten_normalize region)" by linarith
    with small show False by (simp add: near_zero_def)
  qed
next
  assume black: "\<forall>p \<in> set (concat region). p = 0"
  have "\<forall>x \<in> set (flatten_normalize region). x = 0"
  proof
    fix x assume "x \<in> set (flatten_normalize region)"
    then obtain p where "p \<in> set (concat region)" and x: "x = real (unat p) / 255"
      unfolding flatten_normalize_def by (auto simp only: set_map)
    with black have "p = 0" by blast
    with x show "x = 0" by simp
  qed
  then have "linalg_norm (flatten_normalize region) = 0" by (rule linalg_norm_zeros)
  then show "linalg_norm (flatten_normalize region) < near_zero" by (simp add: near_zero_def)
qed

subsection \<open>The matcher returns on frames of the right size\<close>

lemma slice2d_size:
  assumes "y0 + h \<le> length a" and "\<forall>r \<in> set a. x0 + w \<le> length r"
  shows "length (concat (slice2d a y0 x0 h w)) = h * w"
proof -
  have "\<forall>x \<in> set (slice2d a y0 x0 h w). length x = w"
    using assms(2) by (auto simp: slice2d_def dest!: in_set_takeD in_set_dropD)
  then have "length (concat (slice2d a y0 x0 h w)) = length (slice2d a y0 x0 h w) * w"
    by (rule length_concat_uniform)
  also have "length (slice2d a y0 x0 h w) = h"
    using assms(1) by (simp add: slice2d_def)
  finally show ?thesis .
qed

lemma cell_inside:
  assumes "row < rows" and "rows * (ch::nat) \<le> n"
  shows "row * ch + ch \<le> n"
proof -
  have "row * ch + ch = Suc row * ch" by simp
  also have "\<dots> \<le> rows * ch" using assms(1) by (intro mult_le_mono1) simp
  finally show ?thesis using assms(2) by simp
qed

lemma glyph_of_cell_total:
  assumes "ft \<noteq> []" and "\<forall>t \<in> set ft. length t = length rf" and "length tn = length ft"
  shows "\<exists>g. glyph_of_cell ft tn rf = Inr g"
proof (cases "linalg_norm rf < near_zero")
  case True
  then show ?thesis by (simp add: glyph_of_cell_def)
next
  case False
  have "matvec ft rf = Inr (map (\<lambda>r. dot r rf) ft)"
    using assms(2) by (simp add: matvec_def list_all_iff)
  then obtain scores where s: "scores_of ft tn rf = Inr scores" and "length scores = length ft"
    using assms(3) by (simp add: scores_of_def broadcast2_def)
  then have "scores \<noteq> []" using assms(1) by auto
  then obtain i where "argmax scores = Inr i" using argmax_nonempty by blast
  with s False show ?thesis by (simp add: glyph_of_cell_def)
qed

lemma structural_match_frame_total:
  assumes bank: "templates \<noteq> []"
    and shape: "\<forall>t \<in> set templates. length (concat t) = cell_h * cell_w"
    and norms: "length template_norms = length templates"
    and gray_h: "rows * cell_h \<le> length frame_gray"
    and gray_w: "\<forall>r \<in> set frame_gray. cols * cell_w \<le> length r"
    and rgb_h: "rows * cell_h \<le> length frame_rgb"
    and rgb_w: "\<forall>r \<in> set frame_rgb. cols * cell_w \<le> length r"
    and pos: "0 < cell_w" "0 < cell_h"
  shows "\<exists>res. structural_match_frame frame_gray frame_rgb templates template_norms km
                 (int cols) (int rows) cell_w cell_h = Inr res"
proof -
  let ?f = "match_cell frame_gray frame_rgb (map concat templates) template_norms km cell_w cell_h"
  have "\<exists>v. x = Inr v" if "x \<in> set (map ?f (List.product [0..<rows] [0..<cols]))" for x
  proof -
    from that obtain row col where x: "x = ?f (row, col)" and row: "row < rows" and col: "col < cols"
      by auto
    have len_g: "length (region_flat frame_gray row col cell_w cell_h) = cell_h * cell_w"
      unfolding region_flat_def flatten_normalize_def length_map
      using cell_inside [OF row gray_h] cell_inside [OF col, of cell_w] gray_w
      by (intro slice2d_size) auto
    have len_c: "length (rgb_region frame_rgb row col cell_w cell_h) = cell_h * cell_w"
      unfolding rgb_region_def
      using cell_inside [OF row rgb_h] cell_inside [OF col, of cell_w] rgb_w
      by (intro slice2d_size) auto
    obtain g where g: "glyph_of_cell (map concat templates) template_norms
                         (region_flat frame_gray row col cell_w cell_h) = Inr g"
      using glyph_of_cell_total [of "map concat templates"
                "region_flat frame_gray row col cell_w cell_h" template_norms]
        bank shape norms len_g by auto
    have "rgb_region frame_rgb row col cell_w cell_h \<noteq> []"
      using len_c pos by auto
    then show ?thesis using g x by (simp add: match_cell_def color_of_cell_def)
  qed
  then obtain cells where "collect (map ?f (List.product [0..<rows] [0..<cols])) = Inr cells"
    using collect_all_Inr by blast
  then show ?thesis using bank by (simp add: structural_match_frame_def)
qed

subsection \<open>Lemmas on the glyph template bank\<close>

lemma build_glyph_templates_chars:
  "fst (build_glyph_templates font cell_w cell_h) = map char_of [32..<127::nat]"
  by (simp add: build_glyph_templates_def render_glyph_def Let_def comp_def)

lemma build_glyph_templates_templates:
  "snd (build_glyph_templates font cell_w cell_h)
     = map (\<lambda>code. image_array (font (char_of code) cell_w cell_h) cell_w cell_h) [32..<127]"
  by (simp add: build_glyph_templates_def render_glyph_def Let_def comp_def)

lemma image_array_shape:
  "length (image_array px w h) = h"
  "y < h \<Longrightarrow> length (image_array px w h ! y) = w"
  "y < h \<Longrightarrow> x < w \<Longrightarrow> image_array px w h ! y ! x = real (unat (px x y)) / 255"
  by (simp_all add: image_array_def)

lemma bank_size:
  assumes "build_glyph_templates font cw ch = (chars, templates)"
  shows "length chars = 95" and "length templates = 95"
    and "\<forall>t \<in> set templates. length (concat t) = ch * cw"
    and "encode_ascii chars = Inr (map of_char chars)"
proof -
  have chars: "chars = map char_of [32..<127::nat]"
    using build_glyph_templates_chars [of font cw ch] assms by simp
  have templates: "templates
     = map (\<lambda>code. image_array (font (char_of code) cw ch) cw ch) [32..<127]"
    using build_glyph_templates_templates [of font cw ch] assms by simp
  show "length chars = 95" unfolding chars by (simp only: length_map length_upt)
  show "length templates = 95" unfolding templates by (simp only: length_map length_upt)
  show "\<forall>t \<in> set templates. length (concat t) = ch * cw"
  proof
    fix t assume "t \<in> set templates"
    then obtain px where t: "t = image_array px cw ch"
      unfolding templates by (auto simp only: set_map)
    have "\<forall>r \<in> set (image_array px cw ch). length r = cw"
      by (auto simp: image_array_def)
    then have "length (concat (image_array px cw ch)) = length (image_array px cw ch) * cw"
      by (rule length_concat_uniform)
    then show "length (concat t) = ch * cw"
      unfolding t by (simp add: image_array_shape)
  qed
  have "(of_char (char_of code) :: nat) < 128" if "code \<in> set [32..<127]" for code :: nat
  proof -
    have "(of_char (char_of code) :: nat) = code mod 256" by (simp add: of_char_of)
    then show ?thesis using that by (simp del: upt_rec_numeral)
  qed
  then have "list_all (\<lambda>c. (of_char c :: nat) < 128) chars"
    unfolding chars list_all_iff by (auto simp only: set_map)
  then show "encode_ascii chars = Inr (map of_char chars)"
    by (simp add: encode_ascii_def)
qed

subsection \<open>Lemmas on the palette builder\<close>

lemma length_stride8: "length (stride8 xs) = (length xs + 7) div 8"
proof (induction xs rule: stride8.induct)
  case 1
  then show ?case by simp
next
  case (2 x xs)
  then show ?case by (cases "length xs < 7") auto
qed

lemma length_pooled_uniform:
  "length (concat (map concat (replicate n (replicate h (replicate w p))))) = n * (h * w)"
  by (induction n) (simp_all add: length_concat sum_list_replicate)

lemma build_palette_empty:
  "build_palette fit [] n_colors = Inl (ValueError ''need at least one array to concatenate'')"
  by (simp add: build_palette_def)

lemma build_palette_Inr:
  assumes "build_palette fit frames n_colors = Inr (palette, km)"
  shows "frames \<noteq> []"
    and "n_colors \<le> length (stride8 (concat (map concat frames)))"
    and "fit n_colors 42 2048 3 (map pixel_float (stride8 (concat (map concat frames)))) = Inr km"
    and "palette = map color_uint8 (cluster_centers km)"
  using assms
  by (auto simp: build_palette_def minibatch_kmeans_fit_def Let_def split: if_splits sum.splits)

lemma build_palette_size:
  assumes "build_palette fit frames n_colors = Inr (palette, km)"
    and "centroids_as_requested fit"
  shows "length palette = n_colors"
  using build_palette_Inr(3,4) [OF assms(1)] assms(2)
  unfolding centroids_as_requested_def by auto

lemma palette_tobytes_length: "length (palette_tobytes palette) = 3 * length palette"
  by (induction palette) (auto simp: palette_tobytes_def)

subsection \<open>Lemmas on the serializer\<close>

lemma write_chunks_fits:
  "length (concat bs) \<le> free \<Longrightarrow> write_chunks free acc (map Inr bs) = (None, acc @ concat bs)"
  by (induction bs arbitrary: free acc) auto

lemma write_chunks_overflow:
  "free < length (concat bs)
     \<Longrightarrow> write_chunks free acc (map Inr bs)
           = (Some (OSError ''No space left on device''), acc @ take free (concat bs))"
  by (induction bs arbitrary: free acc) auto

lemma write_chunks_None:
  "write_chunks free acc cs = (None, content)
     \<Longrightarrow> \<exists>bs. cs = map Inr bs \<and> content = acc @ concat bs \<and> length (concat bs) \<le> free"
proof (induction free acc cs rule: write_chunks.induct)
  case (1 free content)
  then show ?case by simp
next
  case (2 free content e rest)
  then show ?case by simp
next
  case (3 free acc chunk rest)
  show ?case
  proof (cases "length chunk \<le> free")
    case True
    with 3 obtain bs where "rest = map Inr bs" "content = (acc @ chunk) @ concat bs"
      "length (concat bs) \<le> free - length chunk"
      by auto
    with True have "Inr chunk # rest = map Inr (chunk # bs) \<and> content = acc @ concat (chunk # bs)
        \<and> length (concat (chunk # bs)) \<le> free"
      by simp
    then show ?thesis by (rule exI)
  next
    case False
    with 3 show ?thesis by simp
  qed
qed

lemma pack_H_Inr: "pack_H v = Inr bs \<longleftrightarrow> 0 \<le> v \<and> v < 65536 \<and> bs = le16 v"
  by (auto simp: pack_H_def)

lemma pack_HHHH_Inr:
  "pack_HHHH a b c d = Inr bs \<longleftrightarrow>
     (0 \<le> a \<and> a < 65536) \<and> (0 \<le> b \<and> b < 65536) \<and> (0 \<le> c \<and> c < 65536)
     \<and> (0 \<le> d \<and> d < 65536) \<and> bs = le16 a @ le16 b @ le16 c @ le16 d"
  by (auto simp: pack_HHHH_def pack_H_def split: sum.splits)

lemma pack_B_Inr: "pack_B v = Inr bs \<longleftrightarrow> 0 \<le> v \<and> v < 256 \<and> bs = [of_int v]"
  by (auto simp: pack_B_def)

lemma le16_length: "length (le16 v) = 2"
  by (simp add: le16_def)

lemma le16_value:
  assumes "0 \<le> v" and "v < 65536"
  shows "uint (le16 v ! 0) + 256 * uint (le16 v ! 1) = v"
proof -
  have "uint (word_of_int (v mod 256) :: byte) = v mod 256"
    by (simp add: uint_word_of_int)
  moreover have "uint (word_of_int (v div 256) :: byte) = v div 256"
    using assms by (simp add: uint_word_of_int)
  ultimately show ?thesis by (simp add: le16_def)
qed

lemma write_binary_None:
  assumes "write_binary free cols rows fps chars char_bytes palette frames_data = (None, content)"
  shows "content = le16 cols @ le16 rows @ le16 fps @ le16 (int (length frames_data))
                   @ [of_nat (length chars)] @ char_bytes @ palette_tobytes palette
                   @ concat frames_data"
    and "0 \<le> cols \<and> cols < 65536" and "0 \<le> rows \<and> rows < 65536"
    and "0 \<le> fps \<and> fps < 65536" and "length frames_data < 65536" and "length chars < 256"
    and "length content \<le> free"
proof -
  from write_chunks_None [OF assms [unfolded write_binary_def]] obtain bs where
    bs: "[pack_HHHH cols rows fps (int (length frames_data)), pack_B (int (length chars)),
          Inr char_bytes, Inr (palette_tobytes palette)] @ map Inr frames_data = map Inr bs"
    and content: "content = [] @ concat bs" and free: "length (concat bs) \<le> free"
    by blast
  from bs obtain h n rest where shape: "bs = h # n # char_bytes # palette_tobytes palette # rest"
    and h: "pack_HHHH cols rows fps (int (length frames_data)) = Inr h"
    and n: "pack_B (int (length chars)) = Inr n"
    and rest: "map Inr frames_data = (map Inr rest :: (error + byte list) list)"
    by (auto simp: map_eq_Cons_conv Cons_eq_map_conv)
  from rest have "rest = frames_data" by (simp add: inj_map_eq_map)
  with shape h n content free show
    "content = le16 cols @ le16 rows @ le16 fps @ le16 (int (length frames_data))
                   @ [of_nat (length chars)] @ char_bytes @ palette_tobytes palette
                   @ concat frames_data"
    and "0 \<le> cols \<and> cols < 65536" and "0 \<le> rows \<and> rows < 65536"
    and "0 \<le> fps \<and> fps < 65536" and "length frames_data < 65536" and "length chars < 256"
    and "length content \<le> free"
    by (auto simp: pack_HHHH_Inr pack_B_Inr)
qed

lemma write_binary_fits:
  assumes "0 \<le> cols \<and> cols < 65536" and "0 \<le> rows \<and> rows < 65536"
    and "0 \<le> fps \<and> fps < 65536" and "length frames_data < 65536" and "length chars < 256"
    and "content = le16 cols @ le16 rows @ le16 fps @ le16 (int (length frames_data))
                   @ [of_nat (length chars)] @ char_bytes @ palette_tobytes palette
                   @ concat frames_data"
    and "length content \<le> free"
  shows "write_binary free cols rows fps chars char_bytes palette frames_data = (None, content)"
proof -
  let ?bs = "(le16 cols @ le16 rows @ le16 fps @ le16 (int (length frames_data)))
             # [of_nat (length chars)] # char_bytes # palette_tobytes palette # frames_data"
  have chunks: "[pack_HHHH cols rows fps (int (length frames_data)), pack_B (int (length chars)),
          Inr char_bytes, Inr (palette_tobytes palette)] @ map Inr frames_data = map Inr ?bs"
    using assms(1-5) by (simp add: pack_HHHH_Inr pack_B_Inr)
  have "concat ?bs = content" using assms(6) by simp
  then show ?thesis
    unfolding write_binary_def chunks using write_chunks_fits [of ?bs free "[]"] assms(7)
    by simp
qed

lemma write_binary_more_space:
  assumes "write_binary free cols rows fps chars char_bytes palette frames_data = (None, content)"
    and "length content \<le> free'"
  shows "write_binary free' cols rows fps chars char_bytes palette frames_data = (None, content)"
proof -
  from write_chunks_None [OF assms(1) [unfolded write_binary_def]] obtain bs where
    bs: "[pack_HHHH cols rows fps (int (length frames_data)), pack_B (int (length chars)),
          Inr char_bytes, Inr (palette_tobytes palette)] @ map Inr frames_data = map Inr bs"
    and content: "content = [] @ concat bs"
    by blast
  show ?thesis
    unfolding write_binary_def bs using write_chunks_fits [of bs free' "[]"] assms(2) content
    by simp
qed

lemma write_binary_less_space:
  assumes "write_binary free cols rows fps chars char_bytes palette frames_data = (None, content)"
    and "free' < length content"
  shows "write_binary free' cols rows fps chars char_bytes palette frames_data
           = (Some (OSError ''No space left on device''), take free' content)"
proof -
  from write_chunks_None [OF assms(1) [unfolded write_binary_def]] obtain bs where
    bs: "[pack_HHHH cols rows fps (int (length frames_data)), pack_B (int (length chars)),
          Inr char_bytes, Inr (palette_tobytes palette)] @ map Inr frames_data = map Inr bs"
    and content: "content = [] @ concat bs"
    by blast
  show ?thesis
    unfolding write_binary_def bs using write_chunks_overflow [of free' bs "[]"] assms(2) content
    by simp
qed

subsection \<open>Lemmas on the program\<close>

lemma main_None:
  assumes "main env a fs = (None, fs')"
  shows "\<exists>cw ch rows chars templates frames_rgb palette km frames_data char_bytes content.
      cell_size (env_bbox env) = (cw, ch)
    \<and> rows = grid_rows (arg_cols a) cw ch
    \<and> build_glyph_templates (env_font env) cw ch = (chars, templates)
    \<and> env_frames env (arg_input a) (arg_fps a) (arg_cols a * int cw) (rows * int ch)
        = Inr frames_rgb
    \<and> build_palette (env_fit env) frames_rgb 256 = Inr (palette, km)
    \<and> match_frames (map (map (map (env_gray env))) frames_rgb) frames_rgb templates
         (map linalg_norm (map concat templates)) km (arg_cols a) rows cw ch = Inr frames_data
    \<and> encode_ascii chars = Inr char_bytes
    \<and> write_binary (env_free env) (arg_cols a) rows (arg_fps a) chars char_bytes palette
         frames_data = (None, content)
    \<and> fs' = fs(arg_output a \<mapsto> content)"
  using assms unfolding main_def Let_def
  by (auto split: prod.splits sum.splits if_splits)

lemma main_written:
  assumes "cell_size (env_bbox env) = (cw, ch)"
    and "build_glyph_templates (env_font env) cw ch = (chars, templates)"
    and "env_frames env (arg_input a) (arg_fps a) (arg_cols a * int cw)
           (grid_rows (arg_cols a) cw ch * int ch) = Inr frames_rgb"
    and "build_palette (env_fit env) frames_rgb 256 = Inr (palette, km)"
    and "match_frames (map (map (map (env_gray env))) frames_rgb) frames_rgb templates
           (map linalg_norm (map concat templates)) km (arg_cols a)
           (grid_rows (arg_cols a) cw ch) cw ch = Inr frames_data"
    and "encode_ascii chars = Inr char_bytes"
    and "env_can_makedirs env" and "env_can_open env"
    and "write_binary (env_free env) (arg_cols a) (grid_rows (arg_cols a) cw ch) (arg_fps a)
           chars char_bytes palette frames_data = (err, content)"
  shows "main env a fs = (err, fs(arg_output a \<mapsto> content))"
  using assms unfolding main_def Let_def by simp

lemma main_no_frames:
  assumes "cell_size (env_bbox env) = (cw, ch)"
    and "env_frames env (arg_input a) (arg_fps a) (arg_cols a * int cw)
           (grid_rows (arg_cols a) cw ch * int ch) = Inr []"
  shows "main env a fs = (Some (ValueError ''need at least one array to concatenate''), fs)"
  using assms unfolding main_def Let_def
  by (simp add: build_palette_empty split: prod.splits)

lemma match_frames_Inr:
  assumes "match_frames frames_gray frames_rgb templates tn km cols rows cw ch = Inr frames_data"
  shows "length frames_data = length frames_rgb"
    and "i < length frames_rgb \<Longrightarrow>
           structural_match_frame (frames_gray ! i) (frames_rgb ! i) templates tn km cols rows cw ch
             = Inr (frames_data ! i)"
proof -
  let ?f = "\<lambda>i. structural_match_frame (frames_gray ! i) (frames_rgb ! i) templates tn km
                   cols rows cw ch"
  from assms have c: "collect (map ?f [0..<length frames_rgb]) = Inr frames_data"
    by (simp add: match_frames_def)
  show len: "length frames_data = length frames_rgb"
    using collect_Inr_length [OF c] by simp
  show "?f i = Inr (frames_data ! i)" if "i < length frames_rgb"
    using collect_Inr_nth [OF c, of i] that by simp
qed

lemma match_frames_total:
  assumes "\<And>i. i < length frames_rgb \<Longrightarrow>
             \<exists>res. structural_match_frame (frames_gray ! i) (frames_rgb ! i) templates tn km
                     cols rows cw ch = Inr res"
  shows "\<exists>frames_data. match_frames frames_gray frames_rgb templates tn km cols rows cw ch
           = Inr frames_data"
  unfolding match_frames_def using assms by (intro collect_all_Inr) auto

lemma cell_size_positive:
  assumes "cell_size bbox = (cw, ch)"
  shows "8 \<le> cw" and "14 \<le> ch"
  using assms by (auto simp: cell_size_def split: prod.splits)

lemma main_succeeds:
  assumes cell: "cell_size (env_bbox env) = (cw, ch)"
    and rows: "rows = grid_rows (arg_cols a) cw ch"
    and frames: "env_frames env (arg_input a) (arg_fps a) (arg_cols a * int cw) (rows * int ch)
                   = Inr frames_rgb"
    and palette: "build_palette (env_fit env) frames_rgb 256 = Inr (palette, km)"
    and sized: "\<forall>f \<in> set frames_rgb.
                  nat rows * ch \<le> length f \<and> (\<forall>r \<in> set f. nat (arg_cols a) * cw \<le> length r)"
    and cols_ok: "0 \<le> arg_cols a \<and> arg_cols a < 65536"
    and rows_ok: "0 \<le> rows \<and> rows < 65536"
    and fps_ok: "0 \<le> arg_fps a \<and> arg_fps a < 65536"
    and count_ok: "length frames_rgb < 65536"
    and can: "env_can_makedirs env" "env_can_open env"
  shows "\<exists>content. length content
            = 8 + 1 + 95 + 3 * length palette
              + length frames_rgb * (nat (arg_cols a) * nat rows * 2)
          \<and> take 8 content = le16 (arg_cols a) @ le16 rows @ le16 (arg_fps a)
                               @ le16 (int (length frames_rgb))
          \<and> (\<forall>free fs. main (env\<lparr>env_free := free\<rparr>) a fs =
                (if length content \<le> free then (None, fs(arg_output a \<mapsto> content))
                 else (Some (OSError ''No space left on device''),
                       fs(arg_output a \<mapsto> take free content))))"
proof -
  obtain chars templates where bank: "build_glyph_templates (env_font env) cw ch = (chars, templates)"
    by (cases "build_glyph_templates (env_font env) cw ch")
  note b = bank_size [OF bank]
  let ?gray = "map (map (map (env_gray env))) frames_rgb"
  let ?tn = "map linalg_norm (map concat templates)"
  have cols_nat: "arg_cols a = int (nat (arg_cols a))" and rows_nat: "rows = int (nat rows)"
    using cols_ok rows_ok by simp_all
  have "\<exists>res. structural_match_frame (?gray ! i) (frames_rgb ! i) templates ?tn km
                 (arg_cols a) rows cw ch = Inr res" if i: "i < length frames_rgb" for i
  proof -
    have f: "frames_rgb ! i \<in> set frames_rgb" using i by simp
    have g: "?gray ! i = map (map (env_gray env)) (frames_rgb ! i)" using i by simp
    have "\<exists>res. structural_match_frame (?gray ! i) (frames_rgb ! i) templates ?tn km
                 (int (nat (arg_cols a))) (int (nat rows)) cw ch = Inr res"
    proof (rule structural_match_frame_total)
      show "templates \<noteq> []" using b(2) by auto
      show "\<forall>t \<in> set templates. length (concat t) = ch * cw" by (rule b(3))
      show "length ?tn = length templates" by simp
      show "nat rows * ch \<le> length (?gray ! i)" using sized f g by simp
      show "\<forall>r \<in> set (?gray ! i). nat (arg_cols a) * cw \<le> length r"
        using sized f g by auto
      show "nat rows * ch \<le> length (frames_rgb ! i)" using sized f by simp
      show "\<forall>r \<in> set (frames_rgb ! i). nat (arg_cols a) * cw \<le> length r"
        using sized f by simp
      show "0 < cw" "0 < ch" using cell_size_positive [OF cell] by simp_all
    qed
    then show ?thesis using cols_nat rows_nat by simp
  qed
  then obtain frames_data where
    fd: "match_frames ?gray frames_rgb templates ?tn km (arg_cols a) rows cw ch = Inr frames_data"
    using match_frames_total by blast
  have len_fd: "length frames_data = length frames_rgb" by (rule match_frames_Inr(1) [OF fd])
  have "\<forall>f \<in> set frames_data. length f = nat (arg_cols a) * nat rows * 2"
  proof
    fix f assume "f \<in> set frames_data"
    then obtain i where i: "i < length frames_data" and fi: "f = frames_data ! i"
      by (auto simp: in_set_conv_nth)
    have "structural_match_frame (?gray ! i) (frames_rgb ! i) templates ?tn km
            (int (nat (arg_cols a))) (int (nat rows)) cw ch = Inr f"
      using match_frames_Inr(2) [OF fd, of i] i len_fd fi cols_nat rows_nat by simp
    from structural_match_frame_length [OF this]
    show "length f = nat (arg_cols a) * nat rows * 2" by (simp add: mult.commute)
  qed
  then have len_concat: "length (concat frames_data)
       = length frames_data * (nat (arg_cols a) * nat rows * 2)"
    by (rule length_concat_uniform)
  define content where "content = le16 (arg_cols a) @ le16 rows @ le16 (arg_fps a)
      @ le16 (int (length frames_data)) @ [of_nat (length chars)] @ map of_char chars
      @ palette_tobytes palette @ concat frames_data"
  have len: "length content = 8 + 1 + 95 + 3 * length palette
              + length frames_rgb * (nat (arg_cols a) * nat rows * 2)"
    unfolding content_def
    by (simp add: le16_length b(1) palette_tobytes_length len_concat len_fd)
  have full: "write_binary (length content) (arg_cols a) rows (arg_fps a) chars
                (map of_char chars) palette frames_data = (None, content)"
    using cols_ok rows_ok fps_ok count_ok len_fd b(1)
    by (intro write_binary_fits) (simp_all add: content_def)
  have "main (env\<lparr>env_free := free\<rparr>) a fs =
                (if length content \<le> free then (None, fs(arg_output a \<mapsto> content))
                 else (Some (OSError ''No space left on device''),
                       fs(arg_output a \<mapsto> take free content)))" for free fs
  proof (cases "length content \<le> free")
    case True
    have "write_binary free (arg_cols a) rows (arg_fps a) chars
                (map of_char chars) palette frames_data = (None, content)"
      using write_binary_more_space [OF full True] .
    then have "main (env\<lparr>env_free := free\<rparr>) a fs = (None, fs(arg_output a \<mapsto> content))"
      using cell bank frames palette fd b(4) can unfolding rows
      by (intro main_written) simp_all
    with True show ?thesis by simp
  next
    case False
    then have "write_binary free (arg_cols a) rows (arg_fps a) chars
                (map of_char chars) palette frames_data
                 = (Some (OSError ''No space left on device''), take free content)"
      using write_binary_less_space [OF full, of free] by simp
    then have "main (env\<lparr>env_free := free\<rparr>) a fs
                 = (Some (OSError ''No space left on device''),
                    fs(arg_output a \<mapsto> take free content))"
      using cell bank frames palette fd b(4) can unfolding rows
      by (intro main_written) simp_all
    with False show ?thesis by simp
  qed
  moreover have "take 8 content = le16 (arg_cols a) @ le16 rows @ le16 (arg_fps a)
                               @ le16 (int (length frames_rgb))"
    unfolding content_def by (simp add: le16_length len_fd)
  ultimately show ?thesis using len by blast
qed

lemma main_layout:
  assumes run: "main env a fs = (None, fs')"
    and fit: "centroids_as_requested (env_fit env)"
  shows "\<exists>cw ch rows chars templates frames_rgb palette km frames_data content.
      cell_size (env_bbox env) = (cw, ch)
    \<and> rows = grid_rows (arg_cols a) cw ch
    \<and> build_glyph_templates (env_font env) cw ch = (chars, templates)
    \<and> env_frames env (arg_input a) (arg_fps a) (arg_cols a * int cw) (rows * int ch)
        = Inr frames_rgb
    \<and> build_palette (env_fit env) frames_rgb 256 = Inr (palette, km)
    \<and> length frames_data = length frames_rgb
    \<and> (\<forall>i < length frames_rgb.
          structural_match_frame (map (map (env_gray env)) (frames_rgb ! i)) (frames_rgb ! i)
            templates (map linalg_norm (map concat templates)) km (arg_cols a) rows cw ch
            = Inr (frames_data ! i)
        \<and> length (frames_data ! i) = nat (arg_cols a) * nat rows * 2)
    \<and> fs' = fs(arg_output a \<mapsto> content)
    \<and> content = le16 (arg_cols a) @ le16 rows @ le16 (arg_fps a)
                 @ le16 (int (length frames_data)) @ [of_nat (length chars)]
                 @ map of_char chars @ palette_tobytes palette @ concat frames_data
    \<and> (0 \<le> arg_cols a \<and> arg_cols a < 65536) \<and> (0 \<le> rows \<and> rows < 65536)
    \<and> (0 \<le> arg_fps a \<and> arg_fps a < 65536) \<and> length frames_data < 65536
    \<and> length chars = 95 \<and> length (palette_tobytes palette) = 768
    \<and> length content
        = 8 + 1 + length chars + 768 + length frames_data * nat (arg_cols a) * nat rows * 2"
proof -
  from main_None [OF run] obtain cw ch rows chars templates frames_rgb palette km
      frames_data char_bytes content where
    cell: "cell_size (env_bbox env) = (cw, ch)"
    and rows: "rows = grid_rows (arg_cols a) cw ch"
    and bank: "build_glyph_templates (env_font env) cw ch = (chars, templates)"
    and frames: "env_frames env (arg_input a) (arg_fps a) (arg_cols a * int cw) (rows * int ch)
        = Inr frames_rgb"
    and palette: "build_palette (env_fit env) frames_rgb 256 = Inr (palette, km)"
    and fd: "match_frames (map (map (map (env_gray env))) frames_rgb) frames_rgb templates
         (map linalg_norm (map concat templates)) km (arg_cols a) rows cw ch = Inr frames_data"
    and enc: "encode_ascii chars = Inr char_bytes"
    and wr: "write_binary (env_free env) (arg_cols a) rows (arg_fps a) chars char_bytes palette
         frames_data = (None, content)"
    and fs': "fs' = fs(arg_output a \<mapsto> content)"
    by auto
  note b = bank_size [OF bank]
  have cb: "char_bytes = map of_char chars" using enc b(4) by simp
  note w = write_binary_None [OF wr]
  have cols_nat: "arg_cols a = int (nat (arg_cols a))" and rows_nat: "rows = int (nat rows)"
    using w(2,3) by simp_all
  have len_fd: "length frames_data = length frames_rgb" by (rule match_frames_Inr(1) [OF fd])
  have each: "structural_match_frame (map (map (env_gray env)) (frames_rgb ! i)) (frames_rgb ! i)
            templates (map linalg_norm (map concat templates)) km (arg_cols a) rows cw ch
            = Inr (frames_data ! i)
        \<and> length (frames_data ! i) = nat (arg_cols a) * nat rows * 2"
    if i: "i < length frames_rgb" for i
  proof -
    have m: "structural_match_frame (map (map (env_gray env)) (frames_rgb ! i)) (frames_rgb ! i)
            templates (map linalg_norm (map concat templates)) km (arg_cols a) rows cw ch
            = Inr (frames_data ! i)"
      using match_frames_Inr(2) [OF fd i] i by simp
    then have "structural_match_frame (map (map (env_gray env)) (frames_rgb ! i)) (frames_rgb ! i)
            templates (map linalg_norm (map concat templates)) km (int (nat (arg_cols a)))
            (int (nat rows)) cw ch = Inr (frames_data ! i)"
      using cols_nat rows_nat by simp
    from structural_match_frame_length [OF this] m show ?thesis by (simp add: mult.commute)
  qed
  have "\<forall>f \<in> set frames_data. length f = nat (arg_cols a) * nat rows * 2"
    using each len_fd by (auto simp: in_set_conv_nth)
  then have len_concat: "length (concat frames_data)
       = length frames_data * (nat (arg_cols a) * nat rows * 2)"
    by (rule length_concat_uniform)
  have pal: "length (palette_tobytes palette) = 768"
    using build_palette_size [OF palette fit] by (simp add: palette_tobytes_length)
  have size: "length content
        = 8 + 1 + length chars + 768 + length frames_data * nat (arg_cols a) * nat rows * 2"
    unfolding w(1) cb by (simp add: le16_length pal len_concat)
  show ?thesis
    using cell rows bank frames palette len_fd each fs' w(1) [unfolded cb] w(2-5) b(1) pal size
    by blast
qed

subsection \<open>The example inputs\<close>

text \<open>
  A frame of one row and two cells of one pixel, a black one and a white one, matched
  against a blank glyph and a full glyph.
\<close>

lemma example_frame:
  "structural_match_frame [[0, 255]] [[(0, 0, 0), (255, 255, 255)]] [[[0]], [[1]]] [0, 1]
     example_kmeans (int 2) (int 1) 1 1 = Inr [0, 3, 1, 7]"
  by (simp add: structural_match_frame_def match_cell_def glyph_of_cell_def color_of_cell_def
        region_flat_def rgb_region_def slice2d_def flatten_normalize_def linalg_norm_def
        scores_of_def matvec_def broadcast2_def argmax_def dot_def mean_rgb_def near_zero_def
        eps_def example_kmeans_def upt_conv_Cons)


lemma example_palette:
  "\<exists>palette km. build_palette example_fit [replicate 42 (replicate 64 (0, 0, 0))] 256
                    = Inr (palette, km) \<and> length palette = 256"
proof -
  have "length (concat (map concat (replicate 1 (replicate 42 (replicate 64 (0::byte, 0::byte, 0::byte)))))) = 1 * (42 * 64)"
    by (rule length_pooled_uniform)
  then have "length (stride8 (concat (map concat [replicate 42 (replicate 64 (0::byte, 0::byte, 0::byte))]))) = 336"
    by (simp add: length_stride8)
  then show ?thesis
    by (simp add: build_palette_def minibatch_kmeans_fit_def example_fit_def Let_def)
qed

lemma example_fit_contract: "centroids_as_requested example_fit"
  by (simp add: centroids_as_requested_def example_fit_def)

lemma example_env_free: "example_env\<lparr>env_free := 1000000\<rparr> = example_env"
  by (simp add: example_env_def)

lemma example_args_paths:
  "example_args\<lparr>arg_input := ''in.mp4'', arg_output := ''out.bin''\<rparr> = example_args"
  by (simp add: example_args_def)

lemma example_run:
  "\<exists>content. length content = 920 \<and> take 8 content = [8, 0, 3, 0, 12, 0, 1, 0]
     \<and> (\<forall>free fs. main (example_env\<lparr>env_free := free\<rparr>)
              (example_args\<lparr>arg_input := inp, arg_output := out\<rparr>) fs =
            (if 920 \<le> free then (None, fs(out \<mapsto> content))
             else (Some (OSError ''No space left on device''),
                   fs(out \<mapsto> take free content))))"
proof -
  let ?a = "example_args\<lparr>arg_input := inp, arg_output := out\<rparr>"
  obtain palette km where
    p: "build_palette (env_fit example_env) [replicate 42 (replicate 64 (0, 0, 0))] 256
          = Inr (palette, km)" and lp: "length palette = 256"
    using example_palette by (auto simp: example_env_def)
  have cell: "cell_size (env_bbox example_env) = (8, 14)"
    by (simp add: example_env_def cell_size_def)
  have rows: "(3::int) = grid_rows (arg_cols ?a) 8 14"
    by (simp add: example_args_def grid_rows_def py_round_def)
  have frames: "env_frames example_env (arg_input ?a) (arg_fps ?a)
       (arg_cols ?a * int 8) (3 * int 14) = Inr [replicate 42 (replicate 64 (0, 0, 0))]"
    by (simp add: example_env_def example_args_def)
  have "\<exists>content. length content
            = 8 + 1 + 95 + 3 * length palette
              + length [replicate 42 (replicate 64 (0::byte, 0::byte, 0::byte))]
                * (nat (arg_cols ?a) * nat 3 * 2)
          \<and> take 8 content = le16 (arg_cols ?a) @ le16 3 @ le16 (arg_fps ?a)
                 @ le16 (int (length [replicate 42 (replicate 64 (0::byte, 0::byte, 0::byte))]))
          \<and> (\<forall>free fs. main (example_env\<lparr>env_free := free\<rparr>) ?a fs =
                (if length content \<le> free then (None, fs(arg_output ?a \<mapsto> content))
                 else (Some (OSError ''No space left on device''),
                       fs(arg_output ?a \<mapsto> take free content))))"
    using cell rows frames p
    by (rule main_succeeds) (simp_all add: example_args_def example_env_def)
  then obtain content where
    len: "length content = 8 + 1 + 95 + 3 * length palette
              + length [replicate 42 (replicate 64 (0::byte, 0::byte, 0::byte))]
                * (nat (arg_cols ?a) * nat 3 * 2)"
    and hdr: "take 8 content = le16 (arg_cols ?a) @ le16 3 @ le16 (arg_fps ?a)
                 @ le16 (int (length [replicate 42 (replicate 64 (0::byte, 0::byte, 0::byte))]))"
    and run: "\<And>free fs. main (example_env\<lparr>env_free := free\<rparr>) ?a fs =
                (if length content \<le> free then (None, fs(arg_output ?a \<mapsto> content))
                 else (Some (OSError ''No space left on device''),
                       fs(arg_output ?a \<mapsto> take free content)))"
    by blast
  have l: "length content = 920" using len lp by (simp add: example_args_def)
  have h: "take 8 content = [8, 0, 3, 0, 12, 0, 1, 0]"
    using hdr by (simp add: example_args_def le16_def)
  have out: "arg_output ?a = out" by simp
  show ?thesis
    using l h run unfolding out by (intro exI [of _ content]) simp
qed

subsection \<open>The near-zero fast path\<close>

text \<open>
  Claim C1. In a frame that \<open>structural_match_frame\<close> returns, the glyph byte of every
  cell whose grayscale region, flattened and normalized to [0, 1], has an L2 norm below the
  near-zero threshold is 0, the index of the space glyph. The cell at \<open>(row, col)\<close> is
  the pair of bytes at \<open>2 * (row * cols + col)\<close>.
\<close>

theorem near_zero_region_gives_space:
  assumes "structural_match_frame frame_gray frame_rgb templates template_norms km
             (int cols) (int rows) cell_w cell_h = Inr res"
    and "row < rows" and "col < cols"
    and "linalg_norm (region_flat frame_gray row col cell_w cell_h) < near_zero"
  shows "res ! (2 * (row * cols + col)) = 0"
  using structural_match_frame_cells [OF assms(1-3)] assms(4)
  by (auto simp: glyph_of_cell_def)

theorem near_zero_region_gives_space_witness:
  "structural_match_frame [[0, 255]] [[(0, 0, 0), (255, 255, 255)]] [[[0]], [[1]]] [0, 1]
     example_kmeans (int 2) (int 1) 1 1 = Inr [0, 3, 1, 7]
   \<and> (0::nat) < 1 \<and> (0::nat) < 2
   \<and> linalg_norm (region_flat [[0, 255]] 0 0 1 1) < near_zero
   \<and> [0, 3, 1, 7 :: byte] ! (2 * (0 * 2 + 0)) = 0"
proof -
  have n: "linalg_norm (region_flat [[0, 255]] 0 0 1 1) < near_zero"
    by (simp add: region_flat_def slice2d_def flatten_normalize_def linalg_norm_def near_zero_def)
  show ?thesis
    using near_zero_region_gives_space [OF example_frame, of 0 0] n example_frame by simp
qed

subsection \<open>Glyph selection by normalized cross-correlation\<close>



subsection \<open>The layout of the output\<close>



subsection \<open>Valid indices\<close>

text \<open>
  Claim C4. In the file of a completed run, for every frame block and every cell, the
  glyph byte is less than the serialized number of characters (the byte at offset 8, which
  is the size of the glyph bank, 95) and the color byte is less than 256. The cell \<open>k\<close> of
  frame \<open>f\<close> is the pair of bytes at offset \<open>8 + 1 + numChars + 768 + f * (cols * rows * 2)
  + 2 * k\<close>.
\<close>

theorem serialized_indices_in_range:
  assumes run: "main env a fs = (None, fs')"
    and fit: "centroids_as_requested (env_fit env)"
  shows "\<exists>content rows num_chars frame_count.
      fs' (arg_output a) = Some content
    \<and> int rows = grid_rows (arg_cols a) (fst (cell_size (env_bbox env)))
                    (snd (cell_size (env_bbox env)))
    \<and> num_chars = unat (content ! 8)
    \<and> num_chars = length (fst (build_glyph_templates (env_font env)
                      (fst (cell_size (env_bbox env))) (snd (cell_size (env_bbox env)))))
    \<and> int frame_count = uint (content ! 6) + 256 * uint (content ! 7)
    \<and> length content
        = 8 + 1 + num_chars + 768 + frame_count * (nat (arg_cols a) * rows * 2)
    \<and> (\<forall>f < frame_count. \<forall>k < nat (arg_cols a) * rows.
          unat (content ! (8 + 1 + num_chars + 768 + f * (nat (arg_cols a) * rows * 2) + 2 * k))
            < num_chars
        \<and> unat (content ! (8 + 1 + num_chars + 768 + f * (nat (arg_cols a) * rows * 2)
                             + 2 * k + 1)) < 256)"
proof -
  from main_layout [OF run fit] obtain cw ch rows chars templates frames_rgb palette km
      frames_data content where
    cell: "cell_size (env_bbox env) = (cw, ch)"
    and rows: "rows = grid_rows (arg_cols a) cw ch"
    and bank: "build_glyph_templates (env_font env) cw ch = (chars, templates)"
    and len_fd: "length frames_data = length frames_rgb"
    and each: "\<forall>i < length frames_rgb.
          structural_match_frame (map (map (env_gray env)) (frames_rgb ! i)) (frames_rgb ! i)
            templates (map linalg_norm (map concat templates)) km (arg_cols a) rows cw ch
            = Inr (frames_data ! i)
        \<and> length (frames_data ! i) = nat (arg_cols a) * nat rows * 2"
    and fs': "fs' = fs(arg_output a \<mapsto> content)"
    and content: "content = le16 (arg_cols a) @ le16 rows @ le16 (arg_fps a)
                 @ le16 (int (length frames_data)) @ [of_nat (length chars)]
                 @ map of_char chars @ palette_tobytes palette @ concat frames_data"
    and cols_ok: "0 \<le> arg_cols a \<and> arg_cols a < 65536" and rows_ok: "0 \<le> rows \<and> rows < 65536"
    and count: "length frames_data < 65536"
    and chars: "length chars = 95" and pal: "length (palette_tobytes palette) = 768"
    and size: "length content
        = 8 + 1 + length chars + 768 + length frames_data * nat (arg_cols a) * nat rows * 2"
    by blast
  let ?cols = "nat (arg_cols a)" and ?rows = "nat rows"
  let ?m = "?cols * ?rows * 2"
  define pre where "pre = le16 (arg_cols a) @ le16 rows @ le16 (arg_fps a)
                 @ le16 (int (length frames_data)) @ [of_nat (length chars)]
                 @ map of_char chars @ palette_tobytes palette"
  have content': "content = pre @ concat frames_data" unfolding content pre_def by simp
  have len_pre: "length pre = 872" unfolding pre_def by (simp add: le16_length chars pal)
  have templates: "length templates = 95" by (rule bank_size(2) [OF bank])
  have n8: "content ! 8 = of_nat 95"
    unfolding content by (simp add: nth_append le16_length chars)
  have num: "unat (content ! 8) = 95" unfolding n8 by simp
  have c6: "content ! 6 = le16 (int (length frames_data)) ! 0"
    and c7: "content ! 7 = le16 (int (length frames_data)) ! 1"
    unfolding content by (simp_all add: nth_append le16_length)
  have fc: "int (length frames_data) = uint (content ! 6) + 256 * uint (content ! 7)"
    using le16_value [of "int (length frames_data)"] count unfolding c6 c7 by simp
  have uniform: "\<forall>x \<in> set frames_data. length x = ?m"
    using each len_fd by (auto simp: in_set_conv_nth)
  have cell_ok: "unat (content ! (872 + f * ?m + 2 * k)) < 95
        \<and> unat (content ! (872 + f * ?m + 2 * k + 1)) < 256"
    if f: "f < length frames_data" and k: "k < ?cols * ?rows" for f k
  proof -
    have j0: "2 * k < ?m" and j1: "2 * k + 1 < ?m" using k by simp_all
    have g: "content ! (872 + f * ?m + 2 * k) = frames_data ! f ! (2 * k)"
      unfolding content' using concat_uniform_nth [OF uniform f j0] len_pre
      by (simp add: nth_append add.assoc)
    have "structural_match_frame (map (map (env_gray env)) (frames_rgb ! f)) (frames_rgb ! f)
            templates (map linalg_norm (map concat templates)) km (arg_cols a) rows cw ch
            = Inr (frames_data ! f)"
      using each f len_fd by simp
    then have "structural_match_frame (map (map (env_gray env)) (frames_rgb ! f)) (frames_rgb ! f)
            templates (map linalg_norm (map concat templates)) km (int ?cols) (int ?rows) cw ch
            = Inr (frames_data ! f)"
      using cols_ok rows_ok by simp
    then have "unat (frames_data ! f ! (2 * k)) < length templates"
    proof (rule structural_match_frame_glyph_bound)
      show "length (map linalg_norm (map concat templates)) = length templates" by simp
      show "k < ?cols * ?rows" by (rule k)
    qed
    then show ?thesis using g templates byte_less_256 by simp
  qed
  have "fs' (arg_output a) = Some content" using fs' by simp
  moreover have "int ?rows = grid_rows (arg_cols a) (fst (cell_size (env_bbox env)))
                    (snd (cell_size (env_bbox env)))"
    using rows rows_ok cell by simp
  moreover have "95 = length (fst (build_glyph_templates (env_font env)
                      (fst (cell_size (env_bbox env))) (snd (cell_size (env_bbox env)))))"
    using cell bank chars by simp
  moreover have "length content = 8 + 1 + 95 + 768 + length frames_data * (?cols * ?rows * 2)"
    using size chars by (simp add: mult.assoc)
  moreover have "\<forall>f < length frames_data. \<forall>k < ?cols * ?rows.
          unat (content ! (8 + 1 + 95 + 768 + f * (?cols * ?rows * 2) + 2 * k)) < 95
        \<and> unat (content ! (8 + 1 + 95 + 768 + f * (?cols * ?rows * 2) + 2 * k + 1)) < 256"
    using cell_ok by simp
  ultimately show ?thesis
    using num fc
    by (intro exI [of _ content] exI [of _ ?rows] exI [of _ 95] exI [of _ "length frames_data"])
       simp
qed

theorem serialized_indices_in_range_witness:
  "\<exists>fs'. main example_env example_args Map.empty = (None, fs')
     \<and> centroids_as_requested (env_fit example_env)
     \<and> (\<exists>content. fs' (arg_output example_args) = Some content
          \<and> unat (content ! 8) = 95 \<and> length content = 920
          \<and> unat (content ! (872 + 2 * 5)) < 95)"
proof -
  from example_run [where inp = "''in.mp4''" and out = "''out.bin''"] obtain content where
    l: "length content = 920" and h: "take 8 content = [8, 0, 3, 0, 12, 0, 1, 0]"
    and run: "\<And>free fs. main (example_env\<lparr>env_free := free\<rparr>)
              (example_args\<lparr>arg_input := ''in.mp4'', arg_output := ''out.bin''\<rparr>) fs =
            (if 920 \<le> free then (None, fs(''out.bin'' \<mapsto> content))
             else (Some (OSError ''No space left on device''),
                   fs(''out.bin'' \<mapsto> take free content)))"
    by blast
  have r: "main example_env example_args Map.empty = (None, [''out.bin'' \<mapsto> content])"
    using run [of 1000000 Map.empty] unfolding example_args_paths example_env_free by simp
  have c: "centroids_as_requested (env_fit example_env)"
    using example_fit_contract by (simp add: example_env_def)
  have out: "arg_output example_args = ''out.bin''" by (simp add: example_args_def)
  have cols: "nat (arg_cols example_args) = 8" by (simp add: example_args_def)
  have g: "grid_rows (arg_cols example_args) (fst (cell_size (env_bbox example_env)))
                    (snd (cell_size (env_bbox example_env))) = 3"
    by (simp add: example_args_def example_env_def cell_size_def grid_rows_def py_round_def)
  from serialized_indices_in_range [OF r c] obtain content' rows num_chars frame_count where
    c': "[''out.bin'' \<mapsto> content] (arg_output example_args) = Some content'"
    and rows: "int rows = 3"
    and n: "num_chars = unat (content' ! 8)"
    and n95: "num_chars = length (fst (build_glyph_templates (env_font example_env)
                      (fst (cell_size (env_bbox example_env)))
                      (snd (cell_size (env_bbox example_env)))))"
    and len: "length content' = 8 + 1 + num_chars + 768 + frame_count * (8 * rows * 2)"
    and cells: "\<forall>f < frame_count. \<forall>k < 8 * rows.
          unat (content' ! (8 + 1 + num_chars + 768 + f * (8 * rows * 2) + 2 * k)) < num_chars
        \<and> unat (content' ! (8 + 1 + num_chars + 768 + f * (8 * rows * 2) + 2 * k + 1)) < 256"
    unfolding g cols by blast
  have same: "content' = content" using c' by (simp add: out)
  have n95': "num_chars = 95"
    using n95 bank_size(1) [of "env_font example_env" _ _
        "fst (build_glyph_templates (env_font example_env)
                      (fst (cell_size (env_bbox example_env)))
                      (snd (cell_size (env_bbox example_env))))"
        "snd (build_glyph_templates (env_font example_env)
                      (fst (cell_size (env_bbox example_env)))
                      (snd (cell_size (env_bbox example_env))))"]
    by simp
  have r3: "rows = 3" using rows by simp
  have "frame_count = 1" using len l unfolding same n95' r3 by simp
  then have "unat (content ! (872 + 2 * 5)) < 95"
    using cells [rule_format, of 0 5] unfolding same n95' r3 by simp
  moreover have "unat (content ! 8) = 95" using n n95' same by simp
  ultimately show ?thesis using r c l same c' by (intro exI [of _ "[''out.bin'' \<mapsto> content]"]) auto
qed

subsection \<open>The bank of 95 glyphs\<close>

text \<open>
  Claim C5. For every font and cell size, \<open>build_glyph_templates\<close> returns exactly 95
  characters and 95 templates; the character at index \<open>i\<close> has code \<open>32 + i\<close>, so the
  bank covers the codes 32 to 126 in order and the space is at index 0; every template has
  \<open>cell_h\<close> rows of \<open>cell_w\<close> values, each the rendered 8-bit brightness of that
  character divided by 255, hence in [0, 1].
\<close>

theorem build_glyph_templates_bank:
  "let (chars, templates) = build_glyph_templates font cell_w cell_h in
     length chars = 95 \<and> length templates = 95 \<and> chars ! 0 = CHR '' '' \<and>
     (\<forall>i < 95.
        of_char (chars ! i) = 32 + i \<and>
        length (templates ! i) = cell_h \<and>
        (\<forall>y < cell_h.
           length (templates ! i ! y) = cell_w \<and>
           (\<forall>x < cell_w.
              templates ! i ! y ! x = real (unat (font (chars ! i) cell_w cell_h x y)) / 255 \<and>
              0 \<le> templates ! i ! y ! x \<and> templates ! i ! y ! x \<le> 1)))"
proof -
  obtain chars templates where ct: "build_glyph_templates font cell_w cell_h = (chars, templates)"
    by (cases "build_glyph_templates font cell_w cell_h")
  have chars: "chars = map char_of [32..<127::nat]"
    using build_glyph_templates_chars [of font cell_w cell_h] ct by simp
  have templates: "templates
     = map (\<lambda>code. image_array (font (char_of code) cell_w cell_h) cell_w cell_h) [32..<127]"
    using build_glyph_templates_templates [of font cell_w cell_h] ct by simp
  have space: "chars ! 0 = CHR '' ''"
  proof -
    have "chars ! 0 = char_of (32::nat)" unfolding chars by (simp add: upt_conv_Cons)
    also have "\<dots> = CHR '' ''" by code_simp
    finally show ?thesis .
  qed
  have glyph: "of_char (chars ! i) = 32 + i \<and>
        length (templates ! i) = cell_h \<and>
        (\<forall>y < cell_h.
           length (templates ! i ! y) = cell_w \<and>
           (\<forall>x < cell_w.
              templates ! i ! y ! x = real (unat (font (chars ! i) cell_w cell_h x y)) / 255 \<and>
              0 \<le> templates ! i ! y ! x \<and> templates ! i ! y ! x \<le> 1))" if i: "i < 95" for i
  proof -
    have len: "i < length [32..<127::nat]" using i by simp
    have up: "[32..<127] ! i = 32 + i" using i by (intro nth_upt) simp
    have c: "chars ! i = char_of (32 + i)"
      unfolding chars using nth_map [OF len, of char_of] up by (simp only:)
    have "(of_char (char_of (32 + i)) :: nat) = (32 + i) mod 256" by (simp add: of_char_of)
    then have code: "of_char (chars ! i) = 32 + i" using c i by simp
    have t: "templates ! i = image_array (font (chars ! i) cell_w cell_h) cell_w cell_h"
      unfolding templates c
      using nth_map [OF len, of "\<lambda>code. image_array (font (char_of code) cell_w cell_h) cell_w cell_h"] up
      by (simp only:)
    show ?thesis
      using code byte_unit_interval by (simp add: t image_array_shape)
  qed
  show ?thesis
    unfolding ct using chars templates space glyph by simp
qed

theorem build_glyph_templates_bank_witness:
  "length (fst (build_glyph_templates example_font 2 3)) = 95
   \<and> fst (build_glyph_templates example_font 2 3) ! 0 = CHR '' ''
   \<and> (of_char (fst (build_glyph_templates example_font 2 3) ! 32) :: nat) = 64
   \<and> length (snd (build_glyph_templates example_font 2 3) ! 32) = 3
   \<and> length (snd (build_glyph_templates example_font 2 3) ! 32 ! 1) = 2"
  using build_glyph_templates_bank [of example_font 2 3]
  by (simp add: split_beta Let_def)

subsection \<open>The palette\<close>




subsection \<open>Determinism\<close>



subsection \<open>A write that fails partway\<close>

text \<open>
  The destination accepts 8 bytes: the header is written, the next write fails, and the
  run ends with a file of 8 bytes at the destination, where there was none.
\<close>

theorem partial_file_left_in_place:
  "main (example_env\<lparr>env_free := 8\<rparr>) example_args Map.empty
     = (Some (OSError ''No space left on device''),
        [''out.bin'' \<mapsto> [8, 0, 3, 0, 12, 0, 1, 0]])"
proof -
  from example_run [of "''out.bin''" "''in.mp4''"] obtain content where
    h: "take 8 content = [8, 0, 3, 0, 12, 0, 1, 0]"
    and run: "\<And>free fs. main (example_env\<lparr>env_free := free\<rparr>)
              (example_args\<lparr>arg_input := ''in.mp4'', arg_output := ''out.bin''\<rparr>) fs =
            (if 920 \<le> free then (None, fs(''out.bin'' \<mapsto> content))
             else (Some (OSError ''No space left on device''),
                   fs(''out.bin'' \<mapsto> take free content)))"
    by blast
  have a: "example_args\<lparr>arg_input := ''in.mp4'', arg_output := ''out.bin''\<rparr> = example_args"
    by (simp add: example_args_def)
  show ?thesis using run [of 8 Map.empty] h unfolding a by simp
qed

text \<open>
  Claim C8, amended. The destination is opened in place and written chunk by chunk; there
  is no temporary file and no atomic rename. If a run that would complete with file
  content \<open>full\<close> finds a destination that accepts only \<open>free\<close> bytes, fewer than
  \<open>full\<close> has, the run ends with the I/O error and the destination is left holding
  exactly the first \<open>free\<close> bytes of \<open>full\<close>: a partial file.
\<close>

theorem write_failure_leaves_prefix:
  assumes "main (env\<lparr>env_free := enough\<rparr>) a fs = (None, fs0)"
    and "fs0 (arg_output a) = Some full"
    and "free < length full"
  shows "main (env\<lparr>env_free := free\<rparr>) a fs
           = (Some (OSError ''No space left on device''), fs(arg_output a \<mapsto> take free full))"
proof -
  from main_None [OF assms(1)] obtain cw ch rows chars templates frames_rgb palette km
      frames_data char_bytes content where
    cell: "cell_size (env_bbox env) = (cw, ch)"
    and rows: "rows = grid_rows (arg_cols a) cw ch"
    and bank: "build_glyph_templates (env_font env) cw ch = (chars, templates)"
    and frames: "env_frames env (arg_input a) (arg_fps a) (arg_cols a * int cw) (rows * int ch)
        = Inr frames_rgb"
    and palette: "build_palette (env_fit env) frames_rgb 256 = Inr (palette, km)"
    and fd: "match_frames (map (map (map (env_gray env))) frames_rgb) frames_rgb templates
         (map linalg_norm (map concat templates)) km (arg_cols a) rows cw ch = Inr frames_data"
    and enc: "encode_ascii chars = Inr char_bytes"
    and wr: "write_binary enough (arg_cols a) rows (arg_fps a) chars char_bytes palette
         frames_data = (None, content)"
    and fs0: "fs0 = fs(arg_output a \<mapsto> content)"
    by auto
  from assms(1) have can: "env_can_makedirs env" "env_can_open env"
    unfolding main_def Let_def by (auto split: prod.splits sum.splits if_splits)
  have full: "full = content" using assms(2) fs0 by simp
  have "write_binary free (arg_cols a) rows (arg_fps a) chars char_bytes palette frames_data
          = (Some (OSError ''No space left on device''), take free content)"
    using write_binary_less_space [OF wr, of free] assms(3) full by simp
  then show ?thesis
    using cell bank frames palette fd enc can unfolding rows full
    by (intro main_written) simp_all
qed

theorem write_failure_leaves_prefix_witness:
  "\<exists>fs0 full. main (example_env\<lparr>env_free := 920\<rparr>) example_args Map.empty = (None, fs0)
     \<and> fs0 (arg_output example_args) = Some full \<and> 100 < length full
     \<and> main (example_env\<lparr>env_free := 100\<rparr>) example_args Map.empty
         = (Some (OSError ''No space left on device''),
            [arg_output example_args \<mapsto> take 100 full])"
proof -
  from example_run [of "''out.bin''" "''in.mp4''"] obtain content where
    l: "length content = 920"
    and run: "\<And>free fs. main (example_env\<lparr>env_free := free\<rparr>)
              (example_args\<lparr>arg_input := ''in.mp4'', arg_output := ''out.bin''\<rparr>) fs =
            (if 920 \<le> free then (None, fs(''out.bin'' \<mapsto> content))
             else (Some (OSError ''No space left on device''),
                   fs(''out.bin'' \<mapsto> take free content)))"
    by blast
  have a: "example_args\<lparr>arg_input := ''in.mp4'', arg_output := ''out.bin''\<rparr> = example_args"
    by (simp add: example_args_def)
  have out: "arg_output example_args = ''out.bin''" by (simp add: example_args_def)
  have r: "main (example_env\<lparr>env_free := 920\<rparr>) example_args Map.empty
             = (None, [''out.bin'' \<mapsto> content])"
    using run [of 920 Map.empty] unfolding a by simp
  have f: "[''out.bin'' \<mapsto> content] (arg_output example_args) = Some content"
    by (simp add: out)
  have s: "100 < length content" using l by simp
  from write_failure_leaves_prefix [OF r f s] r f s
  show ?thesis unfolding out by blast
qed

subsection \<open>An empty frame set\<close>

text \<open>
  Claim C9. If the extracted frame set is empty, the run ends with the exception that
  palette construction raises (the \<open>ValueError\<close> of \<open>np.concatenate\<close> in
  \<open>build_palette\<close>), and the files are as they were: the destination is neither created
  nor written.
\<close>

theorem empty_frame_set_fails_before_output:
  assumes "cell_size (env_bbox env) = (cell_w, cell_h)"
    and "env_frames env (arg_input a) (arg_fps a) (arg_cols a * int cell_w)
           (grid_rows (arg_cols a) cell_w cell_h * int cell_h) = Inr []"
  shows "build_palette (env_fit env) [] 256
           = Inl (ValueError ''need at least one array to concatenate'')
       \<and> main env a fs = (Some (ValueError ''need at least one array to concatenate''), fs)"
  using main_no_frames [OF assms] build_palette_empty by simp

theorem empty_frame_set_fails_before_output_witness:
  "cell_size (env_bbox (example_env\<lparr>env_frames := \<lambda>path fps w h. Inr []\<rparr>)) = (8, 14)
   \<and> env_frames (example_env\<lparr>env_frames := \<lambda>path fps w h. Inr []\<rparr>)
        (arg_input example_args) (arg_fps example_args) (arg_cols example_args * int 8)
        (grid_rows (arg_cols example_args) 8 14 * int 14) = Inr []
   \<and> main (example_env\<lparr>env_frames := \<lambda>path fps w h. Inr []\<rparr>) example_args Map.empty
       = (Some (ValueError ''need at least one array to concatenate''), Map.empty)"
proof -
  let ?env = "example_env\<lparr>env_frames := \<lambda>path fps w h. Inr []\<rparr>"
  have c: "cell_size (env_bbox ?env) = (8, 14)"
    by (simp add: example_env_def cell_size_def)
  have f: "env_frames ?env (arg_input example_args) (arg_fps example_args)
        (arg_cols example_args * int 8) (grid_rows (arg_cols example_args) 8 14 * int 14) = Inr []"
    by simp
  from empty_frame_set_fails_before_output [OF c f, of Map.empty] c f
  show ?thesis by simp
qed

subsection \<open>Color selection\<close>



end
